(* ===== verification/Quic_Prelude.thy ===== *)
theory Quic_Prelude
  imports Main "HOL-Library.Word"
begin

text \<open>
  Shared vocabulary of the development: byte strings and 64-bit counters, the sequencing
  operators for fallible code (\<open>bindE\<close> without state, \<open>bindW\<close> with state), the word facts the
  stream accounting needs, and the two generic interfaces every component proof goes through:
  \<^item> \<open>transition_invariant\<close>: an invariant of a step relation holds in every reachable state;
  \<^item> \<open>step_preorder\<close>: a relation between the first and the last state of a run that every
    single step satisfies (monotone flags, growing counters).
\<close>

section \<open>Types\<close>

type_synonym byte = "8 word"
type_synonym bytes = "byte list"
type_synonym uint64 = "64 word"
type_synonym uint32 = "32 word"

named_theorems res_iff \<open>inversion of fallible computations\<close>
named_theorems len_bound \<open>bounds on machine counters\<close>

section \<open>Fallible code\<close>

text \<open>
  \<open>bindE m k\<close>: run \<open>m\<close>; an error ends the computation (an exception, an early return),
  a value goes to \<open>k\<close>. \<open>bindW\<close> threads a state as well: the state reached when an error is
  raised is kept, as Ruby keeps every assignment made before the raise.
\<close>

definition bindE :: "'e + 'a \<Rightarrow> ('a \<Rightarrow> 'e + 'b) \<Rightarrow> 'e + 'b" where
  "bindE m k = (case m of Inl e \<Rightarrow> Inl e | Inr a \<Rightarrow> k a)"

definition bindW :: "('w \<Rightarrow> ('e + 'a) \<times> 'w) \<Rightarrow> ('a \<Rightarrow> 'w \<Rightarrow> ('e + 'b) \<times> 'w) \<Rightarrow> 'w \<Rightarrow> ('e + 'b) \<times> 'w" where
  "bindW m k w = (case m w of (Inl e, w') \<Rightarrow> (Inl e, w') | (Inr a, w') \<Rightarrow> k a w')"

definition liftE :: "'e + 'a \<Rightarrow> 'w \<Rightarrow> ('e + 'a) \<times> 'w" where
  "liftE m w = (m, w)"

lemma bindE_simps [simp]: "bindE (Inl e) k = Inl e" "bindE (Inr a) k = k a"
  by (simp_all add: bindE_def)

lemma bindE_Inr_iff [res_iff]: "bindE m k = Inr b \<longleftrightarrow> (\<exists>a. m = Inr a \<and> k a = Inr b)"
  by (cases m) auto

lemma bindE_Inl_iff [res_iff]: "bindE m k = Inl e \<longleftrightarrow> m = Inl e \<or> (\<exists>a. m = Inr a \<and> k a = Inl e)"
  by (cases m) auto

lemma bindW_Inr_iff [res_iff]:
  "bindW m k w = (Inr b, w') \<longleftrightarrow> (\<exists>a v. m w = (Inr a, v) \<and> k a v = (Inr b, w'))"
  by (auto simp: bindW_def split: prod.splits sum.splits)

lemma bindW_Inl_iff [res_iff]:
  "bindW m k w = (Inl e, w') \<longleftrightarrow> m w = (Inl e, w') \<or> (\<exists>a v. m w = (Inr a, v) \<and> k a v = (Inl e, w'))"
  by (auto simp: bindW_def split: prod.splits sum.splits)

lemma liftE_simp [simp]: "liftE m w = (m, w)"
  by (simp add: liftE_def)

text \<open>
  \<open>triple P m Q E\<close>: from a state with \<open>P\<close>, \<open>m\<close> ends in \<open>Q a\<close> when it returns \<open>a\<close> and in \<open>E\<close>
  when it raises. Straight-line code with many exits is verified stage by stage with it.
\<close>

definition triple :: "('w \<Rightarrow> bool) \<Rightarrow> ('w \<Rightarrow> ('e + 'a) \<times> 'w) \<Rightarrow> ('a \<Rightarrow> 'w \<Rightarrow> bool) \<Rightarrow> ('e \<Rightarrow> 'w \<Rightarrow> bool) \<Rightarrow> bool" where
  "triple P m Q E \<longleftrightarrow> (\<forall>w. P w \<longrightarrow> (case m w of (Inl e, w') \<Rightarrow> E e w' | (Inr a, w') \<Rightarrow> Q a w'))"

lemma tripleI:
  assumes "\<And>w r w'. P w \<Longrightarrow> m w = (r, w') \<Longrightarrow> case r of Inl e \<Rightarrow> E e w' | Inr a \<Rightarrow> Q a w'"
  shows "triple P m Q E"
  unfolding triple_def
proof (intro allI impI)
  fix w
  assume "P w"
  with assms [of w "fst (m w)" "snd (m w)"] show "case m w of (Inl e, w') \<Rightarrow> E e w' | (Inr a, w') \<Rightarrow> Q a w'"
    by (cases "m w"; cases "fst (m w)") simp_all
qed

lemma triple_bind:
  assumes "triple P m Q E" "\<And>a. triple (Q a) (k a) R E"
  shows "triple P (bindW m k) R E"
  using assms by (fastforce simp: triple_def bindW_def split: prod.splits sum.splits)

lemma triple_liftE:
  "triple P (liftE m) Q E \<longleftrightarrow> (\<forall>w. P w \<longrightarrow> (case m of Inl e \<Rightarrow> E e w | Inr a \<Rightarrow> Q a w))"
  by (cases m) (simp_all add: triple_def)

lemma triple_ex:
  assumes "\<And>b. triple (P b) m Q E"
  shows "triple (\<lambda>w. \<exists>b. P b w) m Q E"
  unfolding triple_def
proof (intro allI impI, elim exE)
  fix w b
  assume "P b w"
  with assms [of b] show "case m w of (Inl e, w') \<Rightarrow> E e w' | (Inr a, w') \<Rightarrow> Q a w'"
    by (simp add: triple_def)
qed

lemma triple_run:
  assumes "triple P m Q E" "P w" "m w = (r, w')"
  shows "case r of Inl e \<Rightarrow> E e w' | Inr a \<Rightarrow> Q a w'"
  using assms by (cases r) (force simp: triple_def)+

text \<open>The values of a list of fallible reads, or the error of the first that fails.\<close>

fun sequenceE :: "('e + 'a) list \<Rightarrow> 'e + 'a list" where
  "sequenceE [] = Inr []"
| "sequenceE (m # ms) = bindE m (\<lambda>a. bindE (sequenceE ms) (\<lambda>as. Inr (a # as)))"

section \<open>Word facts\<close>

lemma unat_plus64 [len_bound]: "unat a + unat b < 2 ^ 64 \<Longrightarrow> unat (a + b :: uint64) = unat a + unat b"
  using unat_add_lem [of a b] by simp

lemma unat_minus64 [len_bound]: "unat b \<le> unat a \<Longrightarrow> unat (a - b :: uint64) = unat a - unat b"
  by (rule unat_sub) (simp add: word_le_nat_alt)

lemma unat_of_nat64 [len_bound]: "n < 2 ^ 64 \<Longrightarrow> unat (of_nat n :: uint64) = n"
  by (simp add: unat_of_nat take_bit_nat_eq_self)

lemma unat_of_int64 [len_bound]: "0 \<le> k \<Longrightarrow> k < 2 ^ 64 \<Longrightarrow> unat (word_of_int k :: uint64) = nat k"
  using unat_of_nat64 [of "nat k"] by (simp add: nat_less_iff flip: of_nat_nat)

lemma less_of_nat64 [len_bound]: "n < 2 ^ 64 \<Longrightarrow> (a :: uint64) < of_nat n \<longleftrightarrow> unat a < n"
  by (simp add: word_less_nat_alt unat_of_nat64)

lemma of_nat_le64 [len_bound]: "n < 2 ^ 64 \<Longrightarrow> of_nat n \<le> (a :: uint64) \<longleftrightarrow> n \<le> unat a"
  by (simp add: word_le_nat_alt unat_of_nat64)

lemma unat_lt64 [simp]: "unat (a :: uint64) < 2 ^ 64"
  using unsigned_less [of a] by simp

section \<open>Lists of chunks\<close>

abbreviation nbytes :: "bytes list \<Rightarrow> nat" where
  "nbytes cs \<equiv> sum_list (map length cs)"

lemma nbytes_concat: "nbytes cs = length (concat cs)"
  by (simp add: length_concat)

lemma nbytes_member: "c \<in> set cs \<Longrightarrow> length c \<le> nbytes cs"
  by (induction cs) auto

section \<open>Generic interfaces\<close>

locale transition_invariant =
  fixes init :: "'s \<Rightarrow> bool"
    and step :: "'s \<Rightarrow> 's \<Rightarrow> bool"
    and inv :: "'s \<Rightarrow> bool"
  assumes inv_init: "init s \<Longrightarrow> inv s"
    and inv_step: "step s t \<Longrightarrow> inv s \<Longrightarrow> inv t"
begin

lemma inv_run: "step\<^sup>*\<^sup>* s t \<Longrightarrow> inv s \<Longrightarrow> inv t"
  by (induction rule: rtranclp_induct) (auto intro: inv_step)

lemma inv_reachable: "init s \<Longrightarrow> step\<^sup>*\<^sup>* s t \<Longrightarrow> inv t"
  using inv_init inv_run by blast

end

locale step_preorder =
  fixes step :: "'s \<Rightarrow> 's \<Rightarrow> bool"
    and rel :: "'s \<Rightarrow> 's \<Rightarrow> bool"
  assumes rel_refl: "rel s s"
    and rel_trans: "rel s t \<Longrightarrow> rel t u \<Longrightarrow> rel s u"
    and rel_step: "step s t \<Longrightarrow> rel s t"
begin

lemma rel_run: "step\<^sup>*\<^sup>* s t \<Longrightarrow> rel s t"
  by (induction rule: rtranclp_induct) (auto intro: rel_refl rel_trans rel_step)

end

end
