(* ===== verification/Ruby_Runtime.thy ===== *)
theory Ruby_Runtime
  imports Quic_Prelude
begin

text \<open>
  The part of CRuby the extension relies on. Values that reach the C code from Ruby are a
  tagged union (\<open>rvalue\<close>); exceptions are values (\<open>exn\<close>: the class that is raised and, for
  errors that come from ngtcp2, the integer stored in \<open>@code\<close>; message texts are not
  modelled). The conversions \<open>NUM2ULL\<close>, \<open>NUM2LONG\<close>, \<open>Check_Type\<close>, \<open>RTEST\<close> and the argument
  splitter \<open>rb_scan_args\<close> follow CRuby's rules. Ruby's insertion-ordered \<open>Hash\<close> and its \<open>Array\<close>
  used as a queue are given as lists, and their contracts as the locales \<open>ordered_hash\<close> and
  \<open>fifo_queue\<close>, which the registry and the accept queue of a client rely on.
\<close>

section \<open>Values and exceptions\<close>

datatype encoding = ASCII_8BIT | UTF_8 | OTHER_ENCODING string

text \<open>
  \<open>VData\<close> is a Ruby object whose attribute readers return the listed values
  (\<^verbatim>\<open>Quic::Settings\<close>, \<^verbatim>\<open>Quic::TransportParams\<close>); \<open>VHash\<close> is a Hash with Symbol keys.
\<close>

datatype rvalue =
    VNil
  | VBool bool
  | VInt int
  | VSym string
  | VStr encoding bytes
  | VArr "rvalue list"
  | VHash "(string \<times> rvalue) list"
  | VData "(string \<times> rvalue) list"

datatype quic_class =
    QProto | QDropConn | QRetry | QClosed | QCryptoError | QHandshakeTimeout | QFlowControl
  | QUnknown | QWaitReadable | QWaitWritable | QStreamClosed | QStreamReset | QNotBound

datatype exn_class =
    ArgumentError | TypeError | RangeError | RuntimeError | EOFError | NoMethodError | SystemCallError
  | QuicError quic_class

datatype exn = Exn (exn_class: exn_class) (exn_code: "int option")

abbreviation rb_raise :: "exn_class \<Rightarrow> exn + 'a" where
  "rb_raise c \<equiv> Inl (Exn c None)"

section \<open>Type checks and conversions\<close>

definition NIL_P :: "rvalue \<Rightarrow> bool" where
  "NIL_P v \<longleftrightarrow> v = VNil"

definition RTEST :: "rvalue \<Rightarrow> bool" where
  "RTEST v \<longleftrightarrow> v \<noteq> VNil \<and> v \<noteq> VBool False"

fun check_string :: "rvalue \<Rightarrow> exn + (encoding \<times> bytes)" where
  "check_string (VStr e bs) = Inr (e, bs)"
| "check_string _ = rb_raise TypeError"

fun check_array :: "rvalue \<Rightarrow> exn + rvalue list" where
  "check_array (VArr vs) = Inr vs"
| "check_array _ = rb_raise TypeError"

fun check_symbol :: "rvalue \<Rightarrow> exn + string" where
  "check_symbol (VSym s) = Inr s"
| "check_symbol _ = rb_raise TypeError"

text \<open>
  \<open>NUM2ULL\<close> accepts every Integer from \<open>-2^63\<close> to \<open>2^64 - 1\<close>, reads a negative one modulo
  \<open>2^64\<close>, and raises RangeError outside; \<open>NUM2LONG\<close> accepts the signed 64-bit range. CRuby also
  converts Floats and objects with \<^verbatim>\<open>to_int\<close>; the model has neither kind of value, and raises
  TypeError for everything else.
\<close>

fun NUM2ULL :: "rvalue \<Rightarrow> exn + uint64" where
  "NUM2ULL (VInt i) = (if - (2 ^ 63) \<le> i \<and> i < 2 ^ 64 then Inr (word_of_int i) else rb_raise RangeError)"
| "NUM2ULL _ = rb_raise TypeError"

fun NUM2LONG :: "rvalue \<Rightarrow> exn + int" where
  "NUM2LONG (VInt i) = (if - (2 ^ 63) \<le> i \<and> i < 2 ^ 63 then Inr i else rb_raise RangeError)"
| "NUM2LONG _ = rb_raise TypeError"

text \<open>A call of an attribute reader; an object without it raises NoMethodError.\<close>

fun rb_funcall0 :: "rvalue \<Rightarrow> string \<Rightarrow> exn + rvalue" where
  "rb_funcall0 (VData fs) name = (case map_of fs name of None \<Rightarrow> rb_raise NoMethodError | Some v \<Rightarrow> Inr v)"
| "rb_funcall0 _ name = rb_raise NoMethodError"

text \<open>\<open>rb_hash_aref\<close> on a keyword Hash: nil where the key is missing.\<close>

definition kw_aref :: "(string \<times> rvalue) list \<Rightarrow> string \<Rightarrow> rvalue" where
  "kw_aref h k = (case map_of h k of None \<Rightarrow> VNil | Some v \<Rightarrow> v)"

section \<open>Argument lists\<close>

text \<open>
  The arguments of a call: the positional ones and the keywords, if any were given.
  \<open>rb_scan_args lead opt kw\<close> stands for the format strings of the source: \<^verbatim>\<open>"0:"\<close> is
  \<open>0 0 True\<close>, \<^verbatim>\<open>"1:"\<close> is \<open>1 0 True\<close>, \<^verbatim>\<open>"01"\<close> is \<open>0 1 False\<close>. Without \<open>:\<close> in the
  format, keywords arrive as one trailing Hash.
\<close>

record call_args =
  positional :: "rvalue list"
  kwargs :: "(string \<times> rvalue) list option"

definition rb_scan_args :: "nat \<Rightarrow> nat \<Rightarrow> bool \<Rightarrow> call_args \<Rightarrow>
    exn + (rvalue list \<times> (string \<times> rvalue) list option)" where
  "rb_scan_args lead opt kw a =
     (let pos = (if kw then positional a
                 else positional a @ (case kwargs a of None \<Rightarrow> [] | Some h \<Rightarrow> [VHash h]))
      in if length pos < lead \<or> lead + opt < length pos then rb_raise ArgumentError
         else Inr (pos @ replicate (lead + opt - length pos) VNil, if kw then kwargs a else None))"

section \<open>Hash: insertion-ordered maps\<close>

fun hash_aref :: "('k \<times> 'v) list \<Rightarrow> 'k \<Rightarrow> 'v option" where
  "hash_aref [] k = None"
| "hash_aref ((a, b) # h) k = (if a = k then Some b else hash_aref h k)"

text \<open>Storing under a present key keeps the key's place; a new key goes to the end.\<close>

fun hash_aset :: "('k \<times> 'v) list \<Rightarrow> 'k \<Rightarrow> 'v \<Rightarrow> ('k \<times> 'v) list" where
  "hash_aset [] k v = [(k, v)]"
| "hash_aset ((a, b) # h) k v = (if a = k then (a, v) # h else (a, b) # hash_aset h k v)"

fun hash_delete :: "('k \<times> 'v) list \<Rightarrow> 'k \<Rightarrow> ('k \<times> 'v) list" where
  "hash_delete [] k = []"
| "hash_delete ((a, b) # h) k = (if a = k then h else (a, b) # hash_delete h k)"

definition hash_values :: "('k \<times> 'v) list \<Rightarrow> 'v list" where
  "hash_values h = map snd h"

text \<open>The contract of a map whose values are listed in insertion order.\<close>

locale ordered_hash =
  fixes empty :: 'h
    and aref :: "'h \<Rightarrow> 'k \<Rightarrow> 'v option"
    and aset :: "'h \<Rightarrow> 'k \<Rightarrow> 'v \<Rightarrow> 'h"
    and del :: "'h \<Rightarrow> 'k \<Rightarrow> 'h"
    and vals :: "'h \<Rightarrow> 'v list"
    and invar :: "'h \<Rightarrow> bool"
  assumes aref_empty: "aref empty k = None"
    and aref_aset: "aref (aset h k v) k' = (if k' = k then Some v else aref h k')"
    and aref_del: "invar h \<Longrightarrow> aref (del h k) k' = (if k' = k then None else aref h k')"
    and vals_empty: "vals empty = []"
    and vals_new: "aref h k = None \<Longrightarrow> vals (aset h k v) = vals h @ [v]"
    and vals_aref: "invar h \<Longrightarrow> v \<in> set (vals h) \<longleftrightarrow> (\<exists>k. aref h k = Some v)"
    and invar_empty: "invar empty"
    and invar_aset: "invar h \<Longrightarrow> invar (aset h k v)"
    and invar_del: "invar h \<Longrightarrow> invar (del h k)"
begin

lemma aref_same: "aref (aset h k v) k = Some v"
  by (simp add: aref_aset)

lemma aref_deleted: "invar h \<Longrightarrow> aref (del h k) k = None"
  by (simp add: aref_del)

lemma vals_del_subset: "invar h \<Longrightarrow> v \<in> set (vals (del h k)) \<Longrightarrow> v \<in> set (vals h)"
  by (auto simp: vals_aref invar_del aref_del split: if_splits)

lemma vals_aset_subset: "invar h \<Longrightarrow> v' \<in> set (vals (aset h k v)) \<Longrightarrow> v' = v \<or> v' \<in> set (vals h)"
  by (auto simp: vals_aref invar_aset aref_aset split: if_splits)

lemma reinsert_after_delete: "invar h \<Longrightarrow> vals (aset (del h k) k v) = vals (del h k) @ [v]"
  by (simp add: vals_new aref_deleted)

end

lemma hash_aref_map_of: "hash_aref h k = map_of h k"
  by (induction h k rule: hash_aref.induct) auto

lemma hash_aset_keys: "set (map fst (hash_aset h k v)) = insert k (set (map fst h))"
  by (induction h k v rule: hash_aset.induct) auto

lemma hash_aset_distinct: "distinct (map fst h) \<Longrightarrow> distinct (map fst (hash_aset h k v))"
proof (induction h k v rule: hash_aset.induct)
  case (2 a b h k v)
  then show ?case using hash_aset_keys [of h k v] by auto
qed simp

lemma hash_delete_filter: "distinct (map fst h) \<Longrightarrow> hash_delete h k = filter (\<lambda>p. fst p \<noteq> k) h"
proof (induction h k rule: hash_delete.induct)
  case (2 a b h k)
  then show ?case by (auto simp: filter_id_conv image_iff intro!: filter_True [symmetric])
qed simp

interpretation hash: ordered_hash "[]" hash_aref hash_aset hash_delete hash_values "\<lambda>h. distinct (map fst h)"
proof unfold_locales
  fix h :: "('k \<times> 'v) list" and k k' :: 'k and v :: 'v
  show "hash_aref [] k = (None :: 'v option)" by simp
  show "hash_aref (hash_aset h k v) k' = (if k' = k then Some v else hash_aref h k')"
    by (induction h k v rule: hash_aset.induct) auto
  show "hash_aref (hash_delete h k) k' = (if k' = k then None else hash_aref h k')"
    if "distinct (map fst h)"
    using that by (simp add: hash_delete_filter hash_aref_map_of) (induction h; auto simp: map_of_eq_None_iff)
  show "hash_values [] = ([] :: 'v list)" by (simp add: hash_values_def)
  show "hash_values (hash_aset h k v) = hash_values h @ [v]" if "hash_aref h k = None"
    using that by (induction h k v rule: hash_aset.induct) (auto simp: hash_values_def split: if_splits)
  show "v \<in> set (hash_values h) \<longleftrightarrow> (\<exists>k. hash_aref h k = Some v)" if "distinct (map fst h)"
    using that by (force simp: hash_values_def hash_aref_map_of image_iff)
  show "distinct (map fst ([] :: ('k \<times> 'v) list))" by simp
  show "distinct (map fst (hash_aset h k v))" if "distinct (map fst h)"
    using that by (rule hash_aset_distinct)
  show "distinct (map fst (hash_delete h k))" if "distinct (map fst h)"
    using that by (simp add: hash_delete_filter distinct_map_filter)
qed

section \<open>Array: a first-in first-out queue\<close>

definition ary_push :: "'a list \<Rightarrow> 'a \<Rightarrow> 'a list" where
  "ary_push q x = q @ [x]"

fun ary_shift :: "'a list \<Rightarrow> 'a option \<times> 'a list" where
  "ary_shift [] = (None, [])"
| "ary_shift (x # q) = (Some x, q)"

locale fifo_queue =
  fixes empty :: 'q
    and push :: "'q \<Rightarrow> 'a \<Rightarrow> 'q"
    and shift :: "'q \<Rightarrow> 'a option \<times> 'q"
    and contents :: "'q \<Rightarrow> 'a list"
  assumes contents_empty: "contents empty = []"
    and contents_push: "contents (push q x) = contents q @ [x]"
    and shift_empty: "contents q = [] \<Longrightarrow> shift q = (None, q)"
    and shift_some: "contents q = x # xs \<Longrightarrow> \<exists>q'. shift q = (Some x, q') \<and> contents q' = xs"
begin

lemma shift_None_iff: "fst (shift q) = None \<longleftrightarrow> contents q = []"
  using shift_empty shift_some by (cases "contents q") force+

lemma contents_shift: "contents (snd (shift q)) = tl (contents q)"
  using shift_empty shift_some by (cases "contents q") force+

text \<open>What is pushed into a non-empty queue does not change what comes out next.\<close>

lemma shift_push_commute:
  assumes "contents q \<noteq> []"
  shows "fst (shift (push q x)) = fst (shift q)"
    and "contents (snd (shift (push q x))) = contents (push (snd (shift q)) x)"
proof -
  obtain y ys where y: "contents q = y # ys" using assms by (cases "contents q") auto
  then have "contents (push q x) = y # (ys @ [x])" by (simp add: contents_push)
  then show "fst (shift (push q x)) = fst (shift q)"
    using shift_some [OF y] shift_some by fastforce
  show "contents (snd (shift (push q x))) = contents (push (snd (shift q)) x)"
    using assms by (simp add: contents_shift contents_push)
qed

end

interpretation ary: fifo_queue "[]" ary_push ary_shift "\<lambda>q. q"
proof unfold_locales
  fix q :: "'a list" and x xs
  show "ary_shift q = (None, q)" if "q = []" using that by simp
  show "\<exists>q'. ary_shift q = (Some x, q') \<and> q' = xs" if "q = x # xs" using that by simp
qed (simp_all add: ary_push_def)

end
