(* ===== verification/Ngtcp2_Interface.thy ===== *)
theory Ngtcp2_Interface
  imports Ruby_Runtime
begin

text \<open>
  The libraries the extension only calls: ngtcp2, its crypto helper, LibreSSL, the operating
  system's clock and socket. None of their code belongs to the repository, so they are
  parameters: \<open>ngtcp2_consts\<close> holds the values of the macros the source names, and
  \<open>'x ext\<close> the functions it calls, over one opaque state type \<open>'x\<close> that stands for everything
  behind the calls (the \<^verbatim>\<open>ngtcp2_conn\<close>, the TLS objects, the random generator, the clock, the
  socket). A call that may invoke the registered stream callbacks returns the list of the
  invocations, in order, as \<open>ngtcp2_event\<close> values.

  What the code relies on is stated by the predicates at the end of the theory; they are the
  named hypotheses of the properties that need them.
\<close>

section \<open>Constants\<close>

record ngtcp2_consts =
  ERR_PROTO :: int
  ERR_DROP_CONN :: int
  ERR_RETRY :: int
  ERR_CLOSING :: int
  ERR_DRAINING :: int
  ERR_IDLE_CLOSE :: int
  ERR_CRYPTO :: int
  ERR_HANDSHAKE_TIMEOUT :: int
  ERR_STREAM_DATA_BLOCKED :: int
  ERR_STREAM_SHUT_WR :: int
  ERR_INVALID_STATE :: int
  ERR_CALLBACK_FAILURE :: int
  STREAM_DATA_FLAG_FIN :: uint32
  STREAM_CLOSE_FLAG_APP_ERROR_CODE_SET :: uint32
  WRITE_STREAM_FLAG_FIN :: uint32
  MAX_UDP_PAYLOAD_SIZE :: nat
  STATELESS_RESET_TOKENLEN :: nat
  MAX_CIDLEN :: nat
  NGTCP2_SECONDS :: uint64
  CC_ALGO_RENO :: uint32
  CC_ALGO_CUBIC :: uint32
  CC_ALGO_BBR :: uint32
  PROTO_VER_V1 :: uint32
  AF_INET :: int
  AF_INET6 :: int

section \<open>Callback invocations and call results\<close>

text \<open>
  One constructor per stream callback the client registers, with the arguments the callback
  reads (the connection and the user pointers are fixed).
\<close>

datatype ngtcp2_event =
    Stream_open uint64
  | Recv_stream_data uint32 uint64 uint64 bytes
  | Acked_stream_data_offset uint64 uint64 uint64
  | Stream_close uint32 uint64 uint64
  | Stream_reset uint64 uint64 uint64

record writev_ret =
  wv_n :: int
  wv_pdatalen :: int
  wv_packet :: bytes
  wv_events :: "ngtcp2_event list"

type_synonym path = "bytes \<times> bytes"

record ngtcp2_settings =
  initial_ts :: uint64
  cc_algo :: uint32
  initial_rtt :: uint64
  max_window :: uint64
  max_stream_window :: uint64
  handshake_timeout :: uint64
  no_pmtud :: uint32

record ngtcp2_transport_params =
  initial_max_stream_data_bidi_local :: uint64
  initial_max_stream_data_bidi_remote :: uint64
  initial_max_stream_data_uni :: uint64
  initial_max_data :: uint64
  initial_max_streams_bidi :: uint64
  initial_max_streams_uni :: uint64
  max_idle_timeout :: uint64
  active_connection_id_limit :: uint64

section \<open>The external functions\<close>

text \<open>
  \<open>x_writev_stream flags sid data destlen ts\<close> is \<^verbatim>\<open>ngtcp2_conn_writev_stream\<close> with at most one
  data vector (\<open>None\<close> when the count is 0); the other fields are the functions of the same
  name. Objects the libraries allocate are handles (a pointer, \<open>None\<close> for NULL); sockets are
  identified by a number. \<open>x_addrinfo\<close> is \<^verbatim>\<open>Addrinfo.getaddrinfo(...).first\<close> with a family and
  \<^verbatim>\<open>Addrinfo.udp\<close> without, as a packed address. The methods of the bound socket and the resolver
  may raise. Functions that only read the connection return no new state. Time spans given to
  \<open>x_sock_select\<close> are in nanoseconds (the rounding of Ruby's Float seconds is not modelled).
\<close>

record 'x ext =
  consts_of :: ngtcp2_consts
  x_clock_gettime :: "'x \<Rightarrow> (int \<times> int) \<times> 'x"
  x_RAND_bytes :: "nat \<Rightarrow> 'x \<Rightarrow> (int \<times> bytes) \<times> 'x"
  x_writev_stream :: "uint32 \<Rightarrow> uint64 \<Rightarrow> bytes option \<Rightarrow> nat \<Rightarrow> uint64 \<Rightarrow> 'x \<Rightarrow> writev_ret \<times> 'x"
  x_read_pkt :: "path \<Rightarrow> bytes \<Rightarrow> uint64 \<Rightarrow> 'x \<Rightarrow> (int \<times> ngtcp2_event list) \<times> 'x"
  x_handle_expiry :: "uint64 \<Rightarrow> 'x \<Rightarrow> (int \<times> ngtcp2_event list) \<times> 'x"
  x_open_bidi_stream :: "'x \<Rightarrow> (int \<times> uint64) \<times> 'x"
  x_open_uni_stream :: "'x \<Rightarrow> (int \<times> uint64) \<times> 'x"
  x_shutdown_stream_read :: "uint64 \<Rightarrow> uint64 \<Rightarrow> 'x \<Rightarrow> (int \<times> ngtcp2_event list) \<times> 'x"
  x_shutdown_stream_write :: "uint64 \<Rightarrow> uint64 \<Rightarrow> 'x \<Rightarrow> (int \<times> ngtcp2_event list) \<times> 'x"
  x_write_connection_close :: "uint64 \<Rightarrow> bytes option \<Rightarrow> nat \<Rightarrow> uint64 \<Rightarrow> 'x \<Rightarrow> (int \<times> bytes \<times> ngtcp2_event list) \<times> 'x"
  x_max_stream_data_left :: "uint64 \<Rightarrow> 'x \<Rightarrow> uint64"
  x_max_data_left :: "'x \<Rightarrow> uint64"
  x_get_expiry :: "'x \<Rightarrow> uint64"
  x_handshake_completed :: "'x \<Rightarrow> bool"
  x_in_closing_period :: "'x \<Rightarrow> bool"
  x_in_draining_period :: "'x \<Rightarrow> bool"
  x_crypto_init :: "'x \<Rightarrow> int \<times> 'x"
  x_SSL_CTX_new :: "'x \<Rightarrow> nat option \<times> 'x"
  x_configure_client_context :: "nat \<Rightarrow> 'x \<Rightarrow> int \<times> 'x"
  x_SSL_new :: "nat \<Rightarrow> 'x \<Rightarrow> nat option \<times> 'x"
  x_SSL_set_connect_state :: "nat \<Rightarrow> 'x \<Rightarrow> 'x"
  x_SSL_set_tlsext_host_name :: "nat \<Rightarrow> bytes \<Rightarrow> 'x \<Rightarrow> 'x"
  x_SSL_set_alpn_protos :: "nat \<Rightarrow> bytes \<Rightarrow> uint32 \<Rightarrow> 'x \<Rightarrow> int \<times> 'x"
  x_SSL_set_app_data :: "nat \<Rightarrow> 'x \<Rightarrow> 'x"
  x_settings_default :: ngtcp2_settings
  x_transport_params_default :: ngtcp2_transport_params
  x_client_new :: "bytes \<Rightarrow> bytes \<Rightarrow> path \<Rightarrow> uint32 \<Rightarrow> ngtcp2_settings \<Rightarrow> ngtcp2_transport_params \<Rightarrow>
    'x \<Rightarrow> (int \<times> nat option) \<times> 'x"
  x_set_tls_native_handle :: "nat \<Rightarrow> nat \<Rightarrow> 'x \<Rightarrow> 'x"
  x_conn_del :: "nat \<Rightarrow> 'x \<Rightarrow> 'x"
  x_SSL_free :: "nat \<Rightarrow> 'x \<Rightarrow> 'x"
  x_SSL_CTX_free :: "nat \<Rightarrow> 'x \<Rightarrow> 'x"
  x_addrinfo :: "int option \<Rightarrow> rvalue \<Rightarrow> int \<Rightarrow> 'x \<Rightarrow> (exn + bytes) \<times> 'x"
  x_sock_send :: "nat \<Rightarrow> bytes \<Rightarrow> 'x \<Rightarrow> (exn + unit) \<times> 'x"
  x_sock_select :: "nat \<Rightarrow> int option \<Rightarrow> 'x \<Rightarrow> (exn + bool) \<times> 'x"
  x_sock_recvfrom :: "nat \<Rightarrow> nat \<Rightarrow> 'x \<Rightarrow> (exn + bytes) \<times> 'x"
  x_sock_remote_address :: "nat \<Rightarrow> 'x \<Rightarrow> (exn + bytes) \<times> 'x"

section \<open>What the code relies on\<close>

text \<open>
  \<open>switch_labels_distinct\<close>: the labels of the \<^verbatim>\<open>switch\<close> of \<open>quic_raise_ngtcp2_error\<close> are
  different constants, which a C compiler demands.
  \<open>flags_nonzero\<close>: a flag macro has at least one bit.
\<close>

definition switch_labels :: "ngtcp2_consts \<Rightarrow> int list" where
  "switch_labels K = [ERR_PROTO K, ERR_DROP_CONN K, ERR_RETRY K, ERR_CLOSING K, ERR_DRAINING K,
     ERR_IDLE_CLOSE K, ERR_CRYPTO K, ERR_HANDSHAKE_TIMEOUT K, ERR_STREAM_DATA_BLOCKED K,
     ERR_STREAM_SHUT_WR K]"

definition switch_labels_distinct :: "ngtcp2_consts \<Rightarrow> bool" where
  "switch_labels_distinct K \<longleftrightarrow> distinct (switch_labels K)"

definition flags_nonzero :: "ngtcp2_consts \<Rightarrow> bool" where
  "flags_nonzero K \<longleftrightarrow> STREAM_DATA_FLAG_FIN K \<noteq> 0 \<and> WRITE_STREAM_FLAG_FIN K \<noteq> 0 \<and>
     STREAM_CLOSE_FLAG_APP_ERROR_CODE_SET K \<noteq> 0"

text \<open>
  \<open>writev_contract\<close>: the documented result of \<^verbatim>\<open>ngtcp2_conn_writev_stream\<close>. It reports at
  most the bytes it was given as framed, never more than the offered vector, it frames none
  when it fails, and a packet it writes fits the destination.
\<close>

definition writev_contract :: "'x ext \<Rightarrow> bool" where
  "writev_contract X \<longleftrightarrow> (\<forall>flags sid data destlen ts x r x'.
     x_writev_stream X flags sid data destlen ts x = (r, x') \<longrightarrow>
       wv_pdatalen r \<le> (case data of None \<Rightarrow> 0 | Some d \<Rightarrow> int (length d)) \<and>
       (0 < wv_n r \<longrightarrow> nat (wv_n r) \<le> destlen \<and> length (wv_packet r) = nat (wv_n r)))"

lemma writev_contractD:
  assumes "writev_contract X" "x_writev_stream X flags sid data destlen ts x = (r, x')"
  shows "wv_pdatalen r \<le> (case data of None \<Rightarrow> 0 | Some d \<Rightarrow> int (length d))"
    and "0 < wv_n r \<Longrightarrow> nat (wv_n r) \<le> destlen \<and> length (wv_packet r) = nat (wv_n r)"
  using assms unfolding writev_contract_def by blast+

section \<open>A concrete instance\<close>

text \<open>
  An instance of the parameters on which the hypotheses hold: error codes and flags with
  pairwise different values, and external functions that do nothing and succeed. Examples
  override the functions they exercise.
\<close>

definition sample_consts :: ngtcp2_consts where
  "sample_consts = \<lparr>ERR_PROTO = -1, ERR_DROP_CONN = -2, ERR_RETRY = -3, ERR_CLOSING = -4,
     ERR_DRAINING = -5, ERR_IDLE_CLOSE = -6, ERR_CRYPTO = -7, ERR_HANDSHAKE_TIMEOUT = -8,
     ERR_STREAM_DATA_BLOCKED = -9, ERR_STREAM_SHUT_WR = -10, ERR_INVALID_STATE = -11,
     ERR_CALLBACK_FAILURE = -12, STREAM_DATA_FLAG_FIN = 1,
     STREAM_CLOSE_FLAG_APP_ERROR_CODE_SET = 1, WRITE_STREAM_FLAG_FIN = 2,
     MAX_UDP_PAYLOAD_SIZE = 1200, STATELESS_RESET_TOKENLEN = 16, MAX_CIDLEN = 20, NGTCP2_SECONDS = 1000000000,
     CC_ALGO_RENO = 0, CC_ALGO_CUBIC = 1, CC_ALGO_BBR = 2, PROTO_VER_V1 = 1,
     AF_INET = 2, AF_INET6 = 10\<rparr>"

definition sample_ext :: "'x ext" where
  "sample_ext = \<lparr>consts_of = sample_consts,
     x_clock_gettime = (\<lambda>x. ((0, 0), x)),
     x_RAND_bytes = (\<lambda>n x. ((1, replicate n 0), x)),
     x_writev_stream = (\<lambda>flags sid data destlen ts x.
       (\<lparr>wv_n = 0, wv_pdatalen = -1, wv_packet = [], wv_events = []\<rparr>, x)),
     x_read_pkt = (\<lambda>p pkt ts x. ((0, []), x)),
     x_handle_expiry = (\<lambda>ts x. ((0, []), x)),
     x_open_bidi_stream = (\<lambda>x. ((0, 0), x)),
     x_open_uni_stream = (\<lambda>x. ((0, 2), x)),
     x_shutdown_stream_read = (\<lambda>sid code x. ((0, []), x)),
     x_shutdown_stream_write = (\<lambda>sid code x. ((0, []), x)),
     x_write_connection_close = (\<lambda>code reason destlen ts x. ((0, [], []), x)),
     x_max_stream_data_left = (\<lambda>sid x. 0),
     x_max_data_left = (\<lambda>x. 0),
     x_get_expiry = (\<lambda>x. -1),
     x_handshake_completed = (\<lambda>x. False),
     x_in_closing_period = (\<lambda>x. False),
     x_in_draining_period = (\<lambda>x. False),
     x_crypto_init = (\<lambda>x. (0, x)),
     x_SSL_CTX_new = (\<lambda>x. (Some 1, x)),
     x_configure_client_context = (\<lambda>ctx x. (0, x)),
     x_SSL_new = (\<lambda>ctx x. (Some 2, x)),
     x_SSL_set_connect_state = (\<lambda>s x. x),
     x_SSL_set_tlsext_host_name = (\<lambda>s name x. x),
     x_SSL_set_alpn_protos = (\<lambda>s wire n x. (0, x)),
     x_SSL_set_app_data = (\<lambda>s x. x),
     x_settings_default = \<lparr>initial_ts = 0, cc_algo = 0, initial_rtt = 0, max_window = 0,
       max_stream_window = 0, handshake_timeout = 0, no_pmtud = 0\<rparr>,
     x_transport_params_default = \<lparr>initial_max_stream_data_bidi_local = 0,
       initial_max_stream_data_bidi_remote = 0, initial_max_stream_data_uni = 0,
       initial_max_data = 0, initial_max_streams_bidi = 0, initial_max_streams_uni = 0,
       max_idle_timeout = 0, active_connection_id_limit = 0\<rparr>,
     x_client_new = (\<lambda>dcid scid p ver st tp x. ((0, Some 3), x)),
     x_set_tls_native_handle = (\<lambda>c s x. x),
     x_conn_del = (\<lambda>c x. x),
     x_SSL_free = (\<lambda>s x. x),
     x_SSL_CTX_free = (\<lambda>ctx x. x),
     x_addrinfo = (\<lambda>family host port x. (Inr [], x)),
     x_sock_send = (\<lambda>so d x. (Inr (), x)),
     x_sock_select = (\<lambda>so t x. (Inr False, x)),
     x_sock_recvfrom = (\<lambda>so len x. (Inr [], x)),
     x_sock_remote_address = (\<lambda>so x. (Inr [], x))\<rparr>"

lemma sample_consts_ok: "switch_labels_distinct sample_consts" "flags_nonzero sample_consts"
  by (simp_all add: switch_labels_distinct_def switch_labels_def flags_nonzero_def sample_consts_def)

lemma sample_ext_consts [simp]: "consts_of sample_ext = sample_consts"
  by (simp add: sample_ext_def)

lemma sample_ext_writev: "writev_contract (sample_ext :: 'x ext)"
  by (auto simp: writev_contract_def sample_ext_def split: option.splits)

end
