(* ===== verification/Quic_Errors.thy ===== *)
theory Quic_Errors
  imports Ngtcp2_Interface
begin

text \<open>
  \<^verbatim>\<open>ext/quic/quic.c\<close>: the translation of ngtcp2 error codes into Ruby exceptions
  (\<open>quic_raise_ngtcp2_error\<close>), the classes \<open>Init_quic\<close> defines and what a Ruby \<^verbatim>\<open>rescue\<close> of a
  module or class catches (\<open>rescues\<close>), and \<open>quic_library_versions\<close>.
\<close>

section \<open>Error codes to exceptions\<close>

definition quic_error_class :: "ngtcp2_consts \<Rightarrow> int \<Rightarrow> quic_class" where
  "quic_error_class K rv =
     (if rv = ERR_PROTO K then QProto
      else if rv = ERR_DROP_CONN K then QDropConn
      else if rv = ERR_RETRY K then QRetry
      else if rv = ERR_CLOSING K \<or> rv = ERR_DRAINING K then QClosed
      else if rv = ERR_IDLE_CLOSE K then QClosed
      else if rv = ERR_CRYPTO K then QCryptoError
      else if rv = ERR_HANDSHAKE_TIMEOUT K then QHandshakeTimeout
      else if rv = ERR_STREAM_DATA_BLOCKED K then QFlowControl
      else if rv = ERR_STREAM_SHUT_WR K then QStreamClosed
      else QUnknown)"

definition quic_raise_ngtcp2_error :: "ngtcp2_consts \<Rightarrow> int \<Rightarrow> exn + 'a" where
  "quic_raise_ngtcp2_error K rv = Inl (Exn (QuicError (quic_error_class K rv)) (Some rv))"

section \<open>The exception classes of the extension\<close>

text \<open>
  \<open>Init_quic\<close> defines each class below \<open>Quic::Error\<close> (which \<^verbatim>\<open>lib/quic.rb\<close> makes a
  StandardError) and mixes \<open>IO::WaitReadable\<close> and \<open>IO::WaitWritable\<close> into two of them. The
  table lists name, superclass and included modules, in the order of the source.
\<close>

definition Init_quic_classes :: "(quic_class \<times> string \<times> string list) list" where
  "Init_quic_classes =
     [(QProto, ''Quic::Error'', []), (QDropConn, ''Quic::Error'', []), (QRetry, ''Quic::Error'', []),
      (QClosed, ''Quic::Error'', []), (QCryptoError, ''Quic::Error'', []),
      (QHandshakeTimeout, ''Quic::Error'', []), (QFlowControl, ''Quic::Error'', []),
      (QUnknown, ''Quic::Error'', []),
      (QWaitReadable, ''Quic::Error'', [''IO::WaitReadable'']),
      (QWaitWritable, ''Quic::Error'', [''IO::WaitWritable'']),
      (QStreamClosed, ''Quic::Error'', []), (QStreamReset, ''Quic::Error'', []),
      (QNotBound, ''Quic::Error'', [])]"

definition class_ancestors :: "quic_class \<Rightarrow> string list" where
  "class_ancestors c = (case map_of Init_quic_classes c of None \<Rightarrow> []
     | Some (super, mods) \<Rightarrow> mods @ [super, ''StandardError''])"

text \<open>\<open>rescue_module m e\<close>: a Ruby \<^verbatim>\<open>rescue\<close> clause naming the module or class \<open>m\<close> catches \<open>e\<close>.\<close>

definition rescue_module :: "string \<Rightarrow> exn \<Rightarrow> bool" where
  "rescue_module m e = (case exn_class e of QuicError c \<Rightarrow> m \<in> set (class_ancestors c) | _ \<Rightarrow> False)"

text \<open>The classes are finitely many, so statements about all of them are checked by evaluation.\<close>

instantiation quic_class :: enum
begin

definition enum_quic_class :: "quic_class list" where
  "enum_quic_class = [QProto, QDropConn, QRetry, QClosed, QCryptoError, QHandshakeTimeout, QFlowControl,
     QUnknown, QWaitReadable, QWaitWritable, QStreamClosed, QStreamReset, QNotBound]"

definition enum_all_quic_class :: "(quic_class \<Rightarrow> bool) \<Rightarrow> bool" where
  "enum_all_quic_class P \<longleftrightarrow> list_all P (enum_class.enum :: quic_class list)"

definition enum_ex_quic_class :: "(quic_class \<Rightarrow> bool) \<Rightarrow> bool" where
  "enum_ex_quic_class P \<longleftrightarrow> list_ex P (enum_class.enum :: quic_class list)"

instance
proof
  have all: "c \<in> set (enum_class.enum :: quic_class list)" for c
    by (cases c) (simp_all add: enum_quic_class_def)
  then show u: "(UNIV :: quic_class set) = set enum_class.enum" by blast
  show "distinct (enum_class.enum :: quic_class list)" by (simp add: enum_quic_class_def)
  fix P :: "quic_class \<Rightarrow> bool"
  show "enum_class.enum_all P \<longleftrightarrow> Ball UNIV P" using all by (auto simp: enum_all_quic_class_def list_all_iff)
  show "enum_class.enum_ex P \<longleftrightarrow> Bex UNIV P" using all by (auto simp: enum_ex_quic_class_def list_ex_iff)
qed

end

section \<open>Library versions\<close>

definition quic_library_versions :: "bytes \<Rightarrow> bytes \<Rightarrow> rvalue" where
  "quic_library_versions ngtcp2_str openssl_str =
     VHash (hash_aset (hash_aset [] ''ngtcp2'' (VStr ASCII_8BIT ngtcp2_str))
              ''openssl'' (VStr ASCII_8BIT openssl_str))"

section \<open>Lemmas\<close>

lemma quic_raise_code: "exn_code (projl (quic_raise_ngtcp2_error K rv)) = Some rv"
  by (simp add: quic_raise_ngtcp2_error_def)

lemma quic_raise_never_returns: "\<nexists>a. quic_raise_ngtcp2_error K rv = Inr a"
  by (simp add: quic_raise_ngtcp2_error_def)

lemma class_ancestors_table:
  "\<forall>c. ''Quic::Error'' \<in> set (class_ancestors c) \<and>
     (''IO::WaitReadable'' \<in> set (class_ancestors c) \<longleftrightarrow> c = QWaitReadable) \<and>
     (''IO::WaitWritable'' \<in> set (class_ancestors c) \<longleftrightarrow> c = QWaitWritable)"
  by code_simp

lemma class_ancestors_error: "''Quic::Error'' \<in> set (class_ancestors c)"
  using class_ancestors_table by blast

lemma wait_readable_ancestor: "''IO::WaitReadable'' \<in> set (class_ancestors c) \<longleftrightarrow> c = QWaitReadable"
  using class_ancestors_table by blast

lemma wait_writable_ancestor: "''IO::WaitWritable'' \<in> set (class_ancestors c) \<longleftrightarrow> c = QWaitWritable"
  using class_ancestors_table by blast

lemma switch_default_iff:
  fixes rv :: 'a
  shows "(if rv = a1 then QProto else if rv = a2 then QDropConn else if rv = a3 then QRetry
     else if rv = a4 \<or> rv = a5 then QClosed else if rv = a6 then QClosed else if rv = a7 then QCryptoError
     else if rv = a8 then QHandshakeTimeout else if rv = a9 then QFlowControl
     else if rv = a10 then QStreamClosed else QUnknown) = QUnknown \<longleftrightarrow>
     rv \<notin> set [a1, a2, a3, a4, a5, a6, a7, a8, a9, a10]"
  by auto

lemma switch_labels_classes:
  fixes a1 :: 'a
  assumes "distinct [a1, a2, a3, a4, a5, a6, a7, a8, a9, a10]"
  shows "map (\<lambda>rv. if rv = a1 then QProto else if rv = a2 then QDropConn else if rv = a3 then QRetry
     else if rv = a4 \<or> rv = a5 then QClosed else if rv = a6 then QClosed else if rv = a7 then QCryptoError
     else if rv = a8 then QHandshakeTimeout else if rv = a9 then QFlowControl
     else if rv = a10 then QStreamClosed else QUnknown) [a1, a2, a3, a4, a5, a6, a7, a8, a9, a10] =
     [QProto, QDropConn, QRetry, QClosed, QClosed, QClosed, QCryptoError, QHandshakeTimeout, QFlowControl, QStreamClosed]"
  using assms by auto

lemma error_class_default: "rv \<notin> set (switch_labels K) \<longleftrightarrow> quic_error_class K rv = QUnknown"
  unfolding switch_labels_def quic_error_class_def switch_default_iff by (rule refl)

lemma error_class_labels:
  assumes "switch_labels_distinct K"
  shows "map (quic_error_class K) (switch_labels K) =
    [QProto, QDropConn, QRetry, QClosed, QClosed, QClosed, QCryptoError, QHandshakeTimeout, QFlowControl, QStreamClosed]"
  using assms unfolding switch_labels_distinct_def switch_labels_def quic_error_class_def [abs_def]
  by (rule switch_labels_classes)

lemma error_class_shut_wr:
  "switch_labels_distinct K \<Longrightarrow> quic_error_class K (ERR_STREAM_SHUT_WR K) = QStreamClosed"
  using error_class_labels [of K] by (simp only: switch_labels_def list.map list.inject)

end
