(* ===== verification/Quic_Stream.thy ===== *)
theory Quic_Stream
  imports Quic_Errors
begin

unbundle bit_operations_syntax

text \<open>
  A \<^verbatim>\<open>Quic::Stream\<close> object: the C struct \<open>quic_stream_t\<close> of \<^verbatim>\<open>ext/quic/stream.h\<close> together with
  the Ruby instance variables \<open>quic_stream_new\<close> sets, and the operations of
  \<^verbatim>\<open>ext/quic/stream.c\<close> that touch one stream only: enqueueing, \<open>write_nonblock\<close>,
  \<open>close_write\<close>, \<open>read_nonblock\<close>, \<open>eof?\<close>. An operation that raises leaves the stream as it was,
  so these return \<open>exn + (result, new stream)\<close>. The operations that call ngtcp2 are in the
  client theories.
\<close>

section \<open>State\<close>

record quic_stream_t =
  stream_id :: uint64
  sent_offset :: uint64
  acked_offset :: uint64
  pending_shifted :: uint64
  fin_received :: bool
  fin_sent :: bool
  fin_flushed :: bool
  reset :: bool
  closed :: bool
  close_app_error_code :: uint64
  close_has_app_error_code :: bool
  accept_queued :: bool

text \<open>
  The instance variables: \<open>iv_id\<close> is \<open>@id\<close>, \<open>has_client\<close> says that \<open>@client\<close> is the owning
  client and not nil, \<open>pending_chunks\<close> is \<open>@pending_chunks\<close> (an Array of binary Strings),
  \<open>recv_buffer\<close> is \<open>@recv_buffer\<close>.
\<close>

record stream = quic_stream_t +
  iv_id :: int
  has_client :: bool
  pending_chunks :: "bytes list"
  recv_buffer :: bytes

definition LL2NUM :: "uint64 \<Rightarrow> int" where
  "LL2NUM sid = sint sid"

definition quic_stream_alloc :: quic_stream_t where
  "quic_stream_alloc = \<lparr>stream_id = 0, sent_offset = 0, acked_offset = 0, pending_shifted = 0,
     fin_received = False, fin_sent = False, fin_flushed = False, reset = False, closed = False,
     close_app_error_code = 0, close_has_app_error_code = False, accept_queued = False\<rparr>"

definition quic_stream_new :: "uint64 \<Rightarrow> bool \<Rightarrow> stream" where
  "quic_stream_new sid client =
     quic_stream_t.extend (quic_stream_alloc\<lparr>stream_id := sid\<rparr>)
       (stream.fields (LL2NUM sid) client [] [])"

section \<open>Queueing bytes\<close>

definition quic_stream_enqueue :: "rvalue \<Rightarrow> bool \<Rightarrow> stream \<Rightarrow> exn + (int \<times> stream)" where
  "quic_stream_enqueue data fin s =
     (if reset s \<or> closed s then rb_raise (QuicError QStreamClosed)
      else if fin_sent s then rb_raise (QuicError QStreamClosed)
      else bindE (check_string data) (\<lambda>(enc, bs).
        let len = int (length bs);
            s1 = (if len > 0 then s\<lparr>pending_chunks := ary_push (pending_chunks s) bs\<rparr> else s);
            s2 = (if fin then s1\<lparr>fin_sent := True\<rparr> else s1)
        in Inr (len, s2)))"

definition quic_stream_fin_kwarg :: "call_args \<Rightarrow> exn + (rvalue \<times> bool)" where
  "quic_stream_fin_kwarg args = bindE (rb_scan_args 1 0 True args) (\<lambda>(pos, opts).
     Inr (pos ! 0, case opts of None \<Rightarrow> False | Some h \<Rightarrow> RTEST (kw_aref h ''fin'')))"

definition quic_stream_window_left :: "'x ext \<Rightarrow> 'x \<Rightarrow> stream \<Rightarrow> uint64" where
  "quic_stream_window_left X x s =
     (let stream_left = x_max_stream_data_left X (stream_id s) x;
          conn_left = x_max_data_left X x
      in if stream_left < conn_left then stream_left else conn_left)"

definition quic_stream_write_nonblock_m :: "'x ext \<Rightarrow> 'x \<Rightarrow> call_args \<Rightarrow> stream \<Rightarrow> exn + (int \<times> stream)" where
  "quic_stream_write_nonblock_m X x args s =
     bindE (quic_stream_fin_kwarg args) (\<lambda>(data, fin).
       if \<not> has_client s then quic_stream_enqueue data fin s
       else bindE (check_string data) (\<lambda>(enc, bs).
         let needed = length bs in
         if needed = 0 then quic_stream_enqueue data fin s
         else
           let avail = quic_stream_window_left X x s in
           if avail = 0 then rb_raise (QuicError QWaitWritable)
           else
             let tk = (if of_nat needed \<le> avail then needed else unat avail);
                 effective_fin = (if tk = needed then fin else False);
                 slice = (if tk = needed then data else VStr ASCII_8BIT (take tk bs))
             in quic_stream_enqueue slice effective_fin s))"

definition quic_stream_close_write_m :: "stream \<Rightarrow> exn + stream" where
  "quic_stream_close_write_m s =
     (if fin_sent s then Inr s
      else bindE (quic_stream_enqueue (VStr ASCII_8BIT []) True s) (\<lambda>(n, s'). Inr s'))"

section \<open>Reading\<close>

text \<open>
  \<open>memmove_front buf off n\<close>: move \<open>n\<close> bytes from offset \<open>off\<close> to the start of the buffer,
  leaving the rest of the memory as it is; \<open>rb_str_set_len\<close> then truncates.
\<close>

definition memmove_front :: "bytes \<Rightarrow> nat \<Rightarrow> nat \<Rightarrow> bytes" where
  "memmove_front buf off n = take n (drop off buf) @ drop n buf"

definition quic_stream_read_nonblock_m :: "rvalue \<Rightarrow> stream \<Rightarrow> exn + (bytes \<times> stream)" where
  "quic_stream_read_nonblock_m length_v s =
     bindE (NUM2LONG length_v) (\<lambda>len.
       if len < 0 then rb_raise ArgumentError
       else
         let buffer = recv_buffer s; have_n = length buffer in
         if have_n = 0 then
           (if fin_received s then rb_raise EOFError else rb_raise (QuicError QWaitReadable))
         else
           let tk = (if len < int have_n then nat len else have_n);
               out = take tk buffer;
               moved = (if tk < have_n then memmove_front buffer tk (have_n - tk) else buffer)
           in Inr (out, s\<lparr>recv_buffer := take (have_n - tk) moved\<rparr>))"

definition quic_stream_eof_p :: "stream \<Rightarrow> bool" where
  "quic_stream_eof_p s \<longleftrightarrow> length (recv_buffer s) = 0 \<and> fin_received s"

text \<open>\<open>initiator\<close> of \<^verbatim>\<open>lib/quic/stream.rb\<close>: the two low bits of \<open>@id\<close> index a table.\<close>

datatype initiator_kind = Client_bidi | Server_bidi | Client_uni | Server_uni

definition INITIATORS :: "initiator_kind list" where
  "INITIATORS = [Client_bidi, Server_bidi, Client_uni, Server_uni]"

definition initiator :: "stream \<Rightarrow> initiator_kind" where
  "initiator s = INITIATORS ! nat (iv_id s AND 3)"

section \<open>Lemmas\<close>

lemma quic_stream_new_simps [simp]:
  "stream_id (quic_stream_new sid c) = sid"
  "sent_offset (quic_stream_new sid c) = 0"
  "acked_offset (quic_stream_new sid c) = 0"
  "pending_shifted (quic_stream_new sid c) = 0"
  "\<not> fin_received (quic_stream_new sid c)"
  "\<not> fin_sent (quic_stream_new sid c)"
  "\<not> fin_flushed (quic_stream_new sid c)"
  "\<not> reset (quic_stream_new sid c)"
  "\<not> closed (quic_stream_new sid c)"
  "close_app_error_code (quic_stream_new sid c) = 0"
  "\<not> close_has_app_error_code (quic_stream_new sid c)"
  "\<not> accept_queued (quic_stream_new sid c)"
  "iv_id (quic_stream_new sid c) = sint sid"
  "has_client (quic_stream_new sid c) = c"
  "pending_chunks (quic_stream_new sid c) = []"
  "recv_buffer (quic_stream_new sid c) = []"
  by (simp_all add: quic_stream_new_def quic_stream_alloc_def quic_stream_t.defs stream.defs LL2NUM_def)

text \<open>The bytes a stream still holds, from offset \<open>pending_shifted\<close> on.\<close>

abbreviation retained :: "stream \<Rightarrow> bytes" where
  "retained s \<equiv> concat (pending_chunks s)"

text \<open>Everything \<open>quic_stream_enqueue\<close> can do, on every branch.\<close>

lemma enqueue_VStr:
  "quic_stream_enqueue (VStr enc bs) fin s =
     (if reset s \<or> closed s \<or> fin_sent s then rb_raise (QuicError QStreamClosed)
      else Inr (int (length bs),
        s\<lparr>pending_chunks := pending_chunks s @ (if bs = [] then [] else [bs]), fin_sent := fin\<rparr>))"
  by (cases s) (simp add: quic_stream_enqueue_def ary_push_def Let_def)

lemma enqueue_Inr_iff:
  "quic_stream_enqueue data fin s = Inr (n, s') \<longleftrightarrow>
     \<not> reset s \<and> \<not> closed s \<and> \<not> fin_sent s \<and>
     (\<exists>enc bs. data = VStr enc bs \<and> n = int (length bs) \<and>
        s' = s\<lparr>pending_chunks := pending_chunks s @ (if bs = [] then [] else [bs]), fin_sent := fin\<rparr>)"
proof (cases data)
  case (VStr enc bs)
  show ?thesis unfolding VStr enqueue_VStr by (simp; blast)
qed (simp_all add: quic_stream_enqueue_def)

lemma enqueue_Inl_iff:
  "quic_stream_enqueue data fin s = Inl e \<longleftrightarrow>
     (e = Exn (QuicError QStreamClosed) None \<and> (reset s \<or> closed s \<or> fin_sent s)) \<or>
     (e = Exn TypeError None \<and> \<not> reset s \<and> \<not> closed s \<and> \<not> fin_sent s \<and> (\<nexists>enc bs. data = VStr enc bs))"
  by (cases data) (auto simp: quic_stream_enqueue_def Let_def)

lemma enqueue_retained:
  "quic_stream_enqueue (VStr enc bs) fin s = Inr (n, s') \<Longrightarrow> retained s' = retained s @ bs"
  by (auto simp: enqueue_Inr_iff)

lemma read_nonblock_Inr_iff:
  "quic_stream_read_nonblock_m (VInt i) s = Inr (out, s') \<longleftrightarrow>
     0 \<le> i \<and> i < 2 ^ 63 \<and> recv_buffer s \<noteq> [] \<and>
     out = take (nat i) (recv_buffer s) \<and> s' = s\<lparr>recv_buffer := drop (nat i) (recv_buffer s)\<rparr>"
proof -
  have "take (length b - k) (memmove_front b k (length b - k)) = drop k b" if "k < length b" for b k
    using that by (simp add: memmove_front_def)
  then show ?thesis
    by (auto simp: quic_stream_read_nonblock_m_def Let_def nat_less_iff)
qed

lemma read_nonblock_take_drop:
  "quic_stream_read_nonblock_m v s = Inr (out, s') \<Longrightarrow> recv_buffer s = out @ recv_buffer s'"
  by (cases v) (simp_all add: read_nonblock_Inr_iff, simp_all add: quic_stream_read_nonblock_m_def)

lemma read_nonblock_state:
  "quic_stream_read_nonblock_m v s = Inr (out, s') \<Longrightarrow> \<exists>b. s' = s\<lparr>recv_buffer := b\<rparr>"
  by (cases v) (auto simp: read_nonblock_Inr_iff, simp_all add: quic_stream_read_nonblock_m_def)

end
