(* ===== verification/Stream_Send.thy ===== *)
theory Stream_Send
  imports Quic_Stream
begin

unbundle bit_operations_syntax

text \<open>
  The send side of one stream. Bytes are queued as chunks (\<open>quic_stream_enqueue\<close>), offered to
  ngtcp2 one chunk suffix at a time (\<open>stream_pick\<close>, the body of the loop of
  \<open>quic_client_pick_send_stream\<close>), accounted when ngtcp2 reports how many it framed
  (\<open>stream_account\<close>, the end of \<open>quic_client_write_pkt\<close>), and dropped once the peer has
  acknowledged a whole chunk (\<open>stream_acked\<close>, the body of \<open>quic_acked_stream_data_offset_cb\<close>).

  The counters are 64-bit words and the arithmetic wraps, as in C; \<open>stream_wf\<close> is the
  invariant that keeps them in range. The locale \<open>send_buffer\<close> is the contract of a
  retransmission buffer, proved of these operations; its client lemmas give the refinement:
  the stream behaves as the list of all bytes ever written, with a sent position and an
  acknowledged position in it.
\<close>

section \<open>Operations\<close>

text \<open>
  The loop over the head chunks: drop each chunk whose end is covered by the acknowledged
  offset. Returns the new \<open>pending_shifted\<close> and the remaining chunks.
\<close>

fun shift_acked :: "uint64 \<Rightarrow> uint64 \<Rightarrow> bytes list \<Rightarrow> uint64 \<times> bytes list" where
  "shift_acked acked shifted [] = (shifted, [])"
| "shift_acked acked shifted (head # rest) =
     (let head_end = shifted + of_nat (length head)
      in if head_end \<le> acked then shift_acked acked head_end rest else (shifted, head # rest))"

definition stream_acked :: "uint64 \<Rightarrow> stream \<Rightarrow> stream" where
  "stream_acked datalen s =
     (let acked = acked_offset s + datalen;
          (shifted, rest) = shift_acked acked (pending_shifted s) (pending_chunks s)
      in s\<lparr>acked_offset := acked, pending_shifted := shifted, pending_chunks := rest\<rparr>)"

text \<open>The walk to the chunk that holds the next unsent byte: its index and the offset in it.\<close>

fun find_chunk :: "uint64 \<Rightarrow> nat \<Rightarrow> bytes list \<Rightarrow> (nat \<times> nat) option" where
  "find_chunk position j [] = None"
| "find_chunk position j (chunk # rest) =
     (if position < of_nat (length chunk) then Some (j, unat position)
      else find_chunk (position - of_nat (length chunk)) (Suc j) rest)"

text \<open>
  What one stream offers: the data vector (\<open>None\<close> for a FIN without data) and the flags;
  \<open>None\<close> when the scan goes on to the next stream.
\<close>

definition stream_pick :: "ngtcp2_consts \<Rightarrow> stream \<Rightarrow> (bytes option \<times> uint32) option" where
  "stream_pick K s =
     (if fin_flushed s then None
      else
        let pending = pending_chunks s;
            position = sent_offset s - pending_shifted s
        in case find_chunk position 0 pending of
             Some (chunk_idx, offset_in_chunk) \<Rightarrow>
               Some (Some (drop offset_in_chunk (pending ! chunk_idx)),
                 if fin_sent s \<and> int chunk_idx = int (length pending) - 1 then WRITE_STREAM_FLAG_FIN K else 0)
           | None \<Rightarrow>
               if fin_sent s \<and> \<not> fin_flushed s then Some (None, WRITE_STREAM_FLAG_FIN K) else None)"

definition stream_account :: "ngtcp2_consts \<Rightarrow> uint32 \<Rightarrow> bytes option \<Rightarrow> int \<Rightarrow> int \<Rightarrow> stream \<Rightarrow> stream" where
  "stream_account K writev_flags datav n pdatalen s =
     (let datav_len = (case datav of None \<Rightarrow> 0 | Some d \<Rightarrow> length d) in
      if pdatalen > 0 then
        let s1 = s\<lparr>sent_offset := sent_offset s + word_of_int pdatalen\<rparr> in
        if writev_flags AND WRITE_STREAM_FLAG_FIN K \<noteq> 0 \<and> nat pdatalen = datav_len
        then s1\<lparr>fin_flushed := True\<rparr> else s1
      else if datav = None \<and> n > 0 \<and> writev_flags AND WRITE_STREAM_FLAG_FIN K \<noteq> 0
      then s\<lparr>fin_flushed := True\<rparr> else s)"

section \<open>Invariant\<close>

definition stream_wf :: "stream \<Rightarrow> bool" where
  "stream_wf s \<longleftrightarrow>
     unat (pending_shifted s) \<le> unat (acked_offset s) \<and>
     unat (acked_offset s) \<le> unat (sent_offset s) \<and>
     unat (sent_offset s) \<le> unat (pending_shifted s) + length (retained s) \<and>
     unat (pending_shifted s) + length (retained s) < 2 ^ 64 \<and>
     [] \<notin> set (pending_chunks s) \<and>
     (fin_flushed s \<longrightarrow> fin_sent s \<and> unat (sent_offset s) = unat (pending_shifted s) + length (retained s))"

lemma stream_wf_new: "stream_wf (quic_stream_new sid c)"
  by (simp add: stream_wf_def)

lemma stream_wf_enqueue:
  assumes "quic_stream_enqueue (VStr enc bs) fin s = Inr (n, s')" "stream_wf s"
    and "unat (pending_shifted s) + length (retained s) + length bs < 2 ^ 64"
  shows "stream_wf s'"
  using assms by (auto simp: enqueue_Inr_iff stream_wf_def)

section \<open>Dropping acknowledged chunks\<close>

text \<open>
  The loop drops the longest prefix of chunks that ends at or before the acknowledged offset,
  and \<open>pending_shifted\<close> moves by exactly the bytes dropped.
\<close>

lemma shift_acked_spec:
  assumes "shift_acked acked shifted cs = (shifted', rest)"
    and "unat shifted + nbytes cs < 2 ^ 64" and "unat shifted \<le> unat acked"
  shows "\<exists>dropped. cs = dropped @ rest \<and> unat shifted' = unat shifted + nbytes dropped \<and>
     unat shifted' \<le> unat acked \<and>
     (rest \<noteq> [] \<longrightarrow> unat acked < unat shifted' + length (hd rest))"
  using assms
proof (induction acked shifted cs rule: shift_acked.induct)
  case (1 acked shifted)
  then show ?case by simp
next
  case (2 acked shifted head rest')
  have e: "unat (shifted + of_nat (length head)) = unat shifted + length head"
    using "2.prems"(2) by (simp add: len_bound)
  show ?case
  proof (cases "shifted + of_nat (length head) \<le> acked")
    case True
    then have le: "unat shifted + length head \<le> unat acked" by (simp add: word_le_nat_alt e)
    obtain dropped where "rest' = dropped @ rest"
      "unat shifted' = unat (shifted + of_nat (length head)) + nbytes dropped"
      "unat shifted' \<le> unat acked" "rest \<noteq> [] \<longrightarrow> unat acked < unat shifted' + length (hd rest)"
      using "2.IH" [OF refl True] "2.prems" True le by (auto simp: e Let_def)
    then show ?thesis by (intro exI [of _ "head # dropped"]) (simp add: e)
  next
    case False
    then have "unat acked < unat shifted + length head" by (simp add: word_le_nat_alt e not_le)
    with False "2.prems" show ?thesis by (intro exI [of _ "[]"]) (auto simp: Let_def)
  qed
qed

text \<open>\<open>stream_acked\<close> on a well-formed stream, in terms of the bytes it keeps.\<close>

lemma stream_acked_spec:
  assumes wf: "stream_wf s" and ack: "unat (acked_offset s) + unat d \<le> unat (sent_offset s)"
  obtains dropped where
    "pending_chunks s = dropped @ pending_chunks (stream_acked d s)"
    "unat (pending_shifted (stream_acked d s)) = unat (pending_shifted s) + nbytes dropped"
    "unat (acked_offset (stream_acked d s)) = unat (acked_offset s) + unat d"
    "unat (pending_shifted (stream_acked d s)) \<le> unat (acked_offset (stream_acked d s))"
    "pending_chunks (stream_acked d s) \<noteq> [] \<Longrightarrow> unat (acked_offset (stream_acked d s)) <
       unat (pending_shifted (stream_acked d s)) + length (hd (pending_chunks (stream_acked d s)))"
proof -
  obtain shifted rest where sh: "shift_acked (acked_offset s + d) (pending_shifted s) (pending_chunks s) = (shifted, rest)"
    by (cases "shift_acked (acked_offset s + d) (pending_shifted s) (pending_chunks s)") auto
  have a: "unat (acked_offset s + d) = unat (acked_offset s) + unat d"
    using ack unat_lt64 [of "sent_offset s"] by (intro unat_plus64) linarith
  obtain dropped where "pending_chunks s = dropped @ rest" "unat shifted = unat (pending_shifted s) + nbytes dropped"
     "unat shifted \<le> unat (acked_offset s + d)"
     "rest \<noteq> [] \<longrightarrow> unat (acked_offset s + d) < unat shifted + length (hd rest)"
    using shift_acked_spec [OF sh] wf a by (auto simp: stream_wf_def length_concat)
  with that sh a show ?thesis by (simp add: stream_acked_def)
qed

lemma stream_acked_frame [simp]:
  "stream_id (stream_acked d s) = stream_id s" "sent_offset (stream_acked d s) = sent_offset s"
  "fin_sent (stream_acked d s) = fin_sent s" "fin_flushed (stream_acked d s) = fin_flushed s"
  "reset (stream_acked d s) = reset s" "closed (stream_acked d s) = closed s"
  "fin_received (stream_acked d s) = fin_received s" "recv_buffer (stream_acked d s) = recv_buffer s"
  "accept_queued (stream_acked d s) = accept_queued s" "has_client (stream_acked d s) = has_client s"
  "iv_id (stream_acked d s) = iv_id s"
  "close_has_app_error_code (stream_acked d s) = close_has_app_error_code s"
  "close_app_error_code (stream_acked d s) = close_app_error_code s"
  by (simp_all add: stream_acked_def Let_def split: prod.splits)

lemma stream_wf_acked:
  assumes "stream_wf s" "unat (acked_offset s) + unat d \<le> unat (sent_offset s)"
  shows "stream_wf (stream_acked d s)"
proof (rule stream_acked_spec [OF assms])
  fix dropped
  assume "pending_chunks s = dropped @ pending_chunks (stream_acked d s)"
    "unat (pending_shifted (stream_acked d s)) = unat (pending_shifted s) + nbytes dropped"
    "unat (acked_offset (stream_acked d s)) = unat (acked_offset s) + unat d"
    "unat (pending_shifted (stream_acked d s)) \<le> unat (acked_offset (stream_acked d s))"
  with assms show ?thesis by (auto simp: stream_wf_def length_concat)
qed

section \<open>Finding the next unsent byte\<close>

lemma find_chunk_Some:
  assumes "find_chunk p j cs = Some (i, off)" "nbytes cs < 2 ^ 64"
  shows "j \<le> i \<and> i < j + length cs \<and> off < length (cs ! (i - j)) \<and>
    drop (unat p) (concat cs) = drop off (cs ! (i - j)) @ concat (drop (Suc (i - j)) cs)"
  using assms
proof (induction p j cs rule: find_chunk.induct)
  case (1 p j)
  then show ?case by simp
next
  case (2 p j c cs)
  show ?case
  proof (cases "p < of_nat (length c)")
    case True
    with 2 show ?thesis by (auto simp: len_bound)
  next
    case False
    then have le: "length c \<le> unat p" using "2.prems" by (simp add: len_bound not_less)
    then have p: "unat (p - of_nat (length c)) = unat p - length c"
      using "2.prems" by (simp add: len_bound)
    have ih: "Suc j \<le> i" "i < Suc j + length cs" "off < length (cs ! (i - Suc j))"
      "drop (unat p - length c) (concat cs) = drop off (cs ! (i - Suc j)) @ concat (drop (Suc (i - Suc j)) cs)"
      using "2.IH" [OF False] "2.prems" False p by auto
    then have "i - j = Suc (i - Suc j)" by simp
    with ih le show ?thesis by simp
  qed
qed

lemma find_chunk_None:
  "nbytes cs < 2 ^ 64 \<Longrightarrow> find_chunk p j cs = None \<longleftrightarrow> nbytes cs \<le> unat p"
proof (induction p j cs rule: find_chunk.induct)
  case (2 p j c cs)
  show ?case
  proof (cases "p < of_nat (length c)")
    case True
    with 2 show ?thesis by (auto simp: len_bound)
  next
    case False
    then have le: "length c \<le> unat p" using "2.prems" by (simp add: len_bound not_less)
    then have "unat (p - of_nat (length c)) = unat p - length c"
      using "2.prems" by (simp add: len_bound)
    with 2 False le show ?thesis by auto
  qed
qed simp

text \<open>The position of the next unsent byte among the retained ones.\<close>

abbreviation send_pos :: "stream \<Rightarrow> nat" where
  "send_pos s \<equiv> unat (sent_offset s) - unat (pending_shifted s)"

lemma unat_position:
  "stream_wf s \<Longrightarrow> unat (sent_offset s - pending_shifted s) = send_pos s"
  by (simp add: stream_wf_def len_bound)

lemma stream_pick_data:
  assumes "stream_wf s" "stream_pick K s = Some (Some v, flags)"
  shows "\<exists>rest. drop (send_pos s) (retained s) = v @ rest \<and> v \<noteq> [] \<and> \<not> fin_flushed s \<and>
    (flags = 0 \<or> flags = WRITE_STREAM_FLAG_FIN K \<and> fin_sent s \<and> rest = [])"
proof -
  have nb: "nbytes (pending_chunks s) < 2 ^ 64" using assms(1) by (simp add: stream_wf_def length_concat)
  from assms(2) obtain i off where f: "find_chunk (sent_offset s - pending_shifted s) 0 (pending_chunks s) = Some (i, off)"
    and v: "v = drop off (pending_chunks s ! i)" "\<not> fin_flushed s"
    and fl: "flags = (if fin_sent s \<and> int i = int (length (pending_chunks s)) - 1 then WRITE_STREAM_FLAG_FIN K else 0)"
    by (auto simp: stream_pick_def Let_def split: if_splits option.splits)
  from find_chunk_Some [OF f nb] v unat_position [OF assms(1)] fl show ?thesis
    by (intro exI [of _ "concat (drop (Suc i) (pending_chunks s))"]) auto
qed

lemma stream_pick_fin:
  assumes "stream_wf s" "stream_pick K s = Some (None, flags)"
  shows "send_pos s = length (retained s)" "fin_sent s" "\<not> fin_flushed s" "flags = WRITE_STREAM_FLAG_FIN K"
proof -
  have nb: "nbytes (pending_chunks s) < 2 ^ 64" using assms(1) by (simp add: stream_wf_def length_concat)
  from assms(2) have f: "find_chunk (sent_offset s - pending_shifted s) 0 (pending_chunks s) = None"
    and r: "fin_sent s" "\<not> fin_flushed s" "flags = WRITE_STREAM_FLAG_FIN K"
    by (auto simp: stream_pick_def Let_def split: if_splits option.splits)
  from f find_chunk_None [OF nb] have "length (retained s) \<le> send_pos s"
    using unat_position [OF assms(1)] by (simp add: length_concat)
  with assms(1) show "send_pos s = length (retained s)" by (auto simp: stream_wf_def)
  show "fin_sent s" "\<not> fin_flushed s" "flags = WRITE_STREAM_FLAG_FIN K" by (rule r)+
qed

text \<open>A stream is skipped exactly when it has nothing left to hand to ngtcp2.\<close>

lemma stream_pick_None:
  assumes "stream_wf s"
  shows "stream_pick K s = None \<longleftrightarrow> send_pos s = length (retained s) \<and> (fin_sent s \<longrightarrow> fin_flushed s)"
proof -
  have nb: "nbytes (pending_chunks s) < 2 ^ 64" using assms by (simp add: stream_wf_def length_concat)
  have "find_chunk (sent_offset s - pending_shifted s) 0 (pending_chunks s) = None \<longleftrightarrow> length (retained s) \<le> send_pos s"
    using find_chunk_None [OF nb] unat_position [OF assms] by (simp add: length_concat)
  with assms show ?thesis
    by (auto simp: stream_pick_def stream_wf_def Let_def split: option.splits)
qed

section \<open>Accounting\<close>

lemma stream_account_frame [simp]:
  "stream_id (stream_account K fl dv n pd s) = stream_id s"
  "acked_offset (stream_account K fl dv n pd s) = acked_offset s"
  "pending_shifted (stream_account K fl dv n pd s) = pending_shifted s"
  "pending_chunks (stream_account K fl dv n pd s) = pending_chunks s"
  "fin_sent (stream_account K fl dv n pd s) = fin_sent s"
  "reset (stream_account K fl dv n pd s) = reset s" "closed (stream_account K fl dv n pd s) = closed s"
  "fin_received (stream_account K fl dv n pd s) = fin_received s"
  "recv_buffer (stream_account K fl dv n pd s) = recv_buffer s"
  "accept_queued (stream_account K fl dv n pd s) = accept_queued s"
  "has_client (stream_account K fl dv n pd s) = has_client s"
  "iv_id (stream_account K fl dv n pd s) = iv_id s"
  "close_has_app_error_code (stream_account K fl dv n pd s) = close_has_app_error_code s"
  "close_app_error_code (stream_account K fl dv n pd s) = close_app_error_code s"
  by (simp_all add: stream_account_def Let_def)

lemma account_sent_offset:
  "sent_offset (stream_account K fl dv n pd s) = (if 0 < pd then sent_offset s + word_of_int pd else sent_offset s)"
  by (simp add: stream_account_def Let_def)

definition offered :: "ngtcp2_consts \<Rightarrow> stream \<Rightarrow> bytes" where
  "offered K s = (case stream_pick K s of Some (Some v, _) \<Rightarrow> v | _ \<Rightarrow> [])"

lemma offered_prefix:
  assumes "stream_wf s"
  shows "\<exists>rest. drop (send_pos s) (retained s) = offered K s @ rest"
proof (cases "stream_pick K s")
  case (Some p)
  then show ?thesis
    using stream_pick_data [OF assms, of K] by (cases p) (fastforce simp: offered_def split: option.splits)
qed (simp add: offered_def)

lemma offered_length: "stream_wf s \<Longrightarrow> length (offered K s) \<le> length (retained s) - send_pos s"
  using offered_prefix [of s K] by (metis length_append length_drop le_add1)

lemma account_sent_unat:
  assumes wf: "stream_wf s" and pick: "stream_pick K s = Some (dv, fl)"
    and pd: "pd \<le> (case dv of None \<Rightarrow> 0 | Some d \<Rightarrow> int (length d))"
  shows "unat (sent_offset (stream_account K fl dv n pd s)) = unat (sent_offset s) + nat pd"
proof (cases "0 < pd")
  case True
  with pd obtain v where v: "dv = Some v" by (cases dv) auto
  have "length v \<le> length (retained s) - send_pos s"
    using offered_length [OF wf, of K] pick v by (simp add: offered_def)
  with v pd wf have "unat (sent_offset s) + nat pd < 2 ^ 64" by (auto simp: stream_wf_def)
  with True show ?thesis
    by (simp add: account_sent_offset len_bound nat_less_iff)
qed (simp add: account_sent_offset)

lemma account_fin_flushed:
  assumes "stream_wf s" "stream_pick K s = Some (dv, fl)"
    and "pd \<le> (case dv of None \<Rightarrow> 0 | Some d \<Rightarrow> int (length d))"
    and "fin_flushed (stream_account K fl dv n pd s)"
  shows "fin_sent s \<and> unat (sent_offset s) + nat pd = unat (pending_shifted s) + length (retained s)"
proof (cases dv)
  case None
  with assms stream_pick_fin [OF assms(1), of K fl] show ?thesis by (auto simp: stream_wf_def)
next
  case (Some v)
  then obtain rest where r: "drop (send_pos s) (retained s) = v @ rest" "\<not> fin_flushed s" "v \<noteq> []"
    "fl = 0 \<or> fl = WRITE_STREAM_FLAG_FIN K \<and> fin_sent s \<and> rest = []"
    using stream_pick_data [OF assms(1)] assms(2) by blast
  from Some assms(4) r(2) have f: "0 < pd" "fl \<noteq> 0" "nat pd = length v"
    by (auto simp: stream_account_def Let_def split: if_splits)
  with r have "length v = length (retained s) - send_pos s" by (metis append_Nil2 length_drop)
  with assms(1) f r(4) show ?thesis by (auto simp: stream_wf_def)
qed

lemma stream_wf_account:
  assumes "stream_wf s" "stream_pick K s = Some (dv, fl)"
    and "pd \<le> (case dv of None \<Rightarrow> 0 | Some d \<Rightarrow> int (length d))"
  shows "stream_wf (stream_account K fl dv n pd s)"
proof -
  have "nat pd \<le> length (retained s) - send_pos s"
    using assms(2,3) offered_length [OF assms(1), of K] by (cases dv) (auto simp: offered_def)
  then show ?thesis
    using assms(1) account_sent_unat [OF assms] account_fin_flushed [OF assms]
    by (auto simp: stream_wf_def)
qed

section \<open>The contract of a retransmission buffer\<close>

text \<open>
  A buffer holds the bytes from offset \<open>base\<close> on (\<open>kept\<close>), has handed out the bytes up to
  offset \<open>sent\<close> and may forget those before \<open>acked\<close>. \<open>put m d\<close> appends \<open>d\<close>, \<open>offer\<close> shows
  what may be sent next, \<open>commit r k\<close> records that \<open>k\<close> offered bytes were taken, \<open>ack k\<close> that
  \<open>k\<close> more bytes arrived. \<open>rep H F s\<close>: the buffer \<open>s\<close> represents the written history \<open>H\<close>,
  of which \<open>F\<close> has been taken.
\<close>

locale send_buffer =
  fixes wf :: "'s \<Rightarrow> bool"
    and base :: "'s \<Rightarrow> nat" and sent :: "'s \<Rightarrow> nat" and acked :: "'s \<Rightarrow> nat"
    and kept :: "'s \<Rightarrow> 'b list"
    and room :: "'m \<Rightarrow> 'b list \<Rightarrow> 's \<Rightarrow> bool"
    and put :: "'m \<Rightarrow> 'b list \<Rightarrow> 's \<Rightarrow> 's"
    and offer :: "'s \<Rightarrow> 'b list"
    and commit :: "'r \<Rightarrow> nat \<Rightarrow> 's \<Rightarrow> 's"
    and ack :: "nat \<Rightarrow> 's \<Rightarrow> 's"
  assumes bounds: "wf s \<Longrightarrow> base s \<le> acked s \<and> acked s \<le> sent s \<and> sent s \<le> base s + length (kept s)"
    and put_law: "wf s \<Longrightarrow> room m d s \<Longrightarrow>
      wf (put m d s) \<and> kept (put m d s) = kept s @ d \<and> base (put m d s) = base s \<and>
      sent (put m d s) = sent s \<and> acked (put m d s) = acked s"
    and offer_law: "wf s \<Longrightarrow> \<exists>rest. drop (sent s - base s) (kept s) = offer s @ rest"
    and offer_live: "wf s \<Longrightarrow> sent s < base s + length (kept s) \<Longrightarrow> offer s \<noteq> []"
    and commit_law: "wf s \<Longrightarrow> k \<le> length (offer s) \<Longrightarrow>
      wf (commit r k s) \<and> kept (commit r k s) = kept s \<and> base (commit r k s) = base s \<and>
      sent (commit r k s) = sent s + k \<and> acked (commit r k s) = acked s"
    and ack_law: "wf s \<Longrightarrow> k < 2 ^ 64 \<Longrightarrow> acked s + k \<le> sent s \<Longrightarrow>
      wf (ack k s) \<and> sent (ack k s) = sent s \<and> acked (ack k s) = acked s + k \<and>
      (\<exists>m. base (ack k s) = base s + m \<and> kept (ack k s) = drop m (kept s) \<and> m \<le> length (kept s))"
begin

definition rep :: "'b list \<Rightarrow> 'b list \<Rightarrow> 's \<Rightarrow> bool" where
  "rep H F s \<longleftrightarrow> wf s \<and> base s \<le> length H \<and> kept s = drop (base s) H \<and> F = take (sent s) H"

lemma rep_length: "rep H F s \<Longrightarrow> length H = base s + length (kept s)"
  by (auto simp: rep_def)

lemma rep_put:
  assumes "rep H F s" "room m d s"
  shows "rep (H @ d) F (put m d s)"
proof -
  have "wf s" "sent s \<le> length H" "kept s = drop (base s) H" "base s \<le> length H"
    using assms(1) rep_length [OF assms(1)] bounds [of s] by (simp_all add: rep_def)
  with assms show ?thesis by (simp add: rep_def put_law)
qed

lemma rep_offer:
  assumes "rep H F s"
  shows "\<exists>rest. drop (sent s) H = offer s @ rest"
proof -
  have "wf s" "kept s = drop (base s) H" "base s \<le> sent s"
    using assms bounds [of s] by (auto simp: rep_def)
  then show ?thesis using offer_law [of s] by (simp add: rep_def)
qed

lemma rep_commit:
  assumes "rep H F s" "k \<le> length (offer s)"
  shows "rep H (F @ take k (offer s)) (commit r k s)"
proof -
  obtain rest where "drop (sent s) H = offer s @ rest" using rep_offer [OF assms(1)] by blast
  with assms have "take (sent s + k) H = F @ take k (offer s)"
    by (simp add: rep_def take_add)
  with assms show ?thesis by (simp add: rep_def commit_law)
qed

lemma rep_ack:
  assumes "rep H F s" "k < 2 ^ 64" "acked s + k \<le> sent s"
  shows "rep H F (ack k s)"
proof -
  have wf: "wf s" and H: "base s \<le> length H" "kept s = drop (base s) H" "F = take (sent s) H"
    using assms(1) by (simp_all add: rep_def)
  from ack_law [OF wf assms(2,3)] obtain m where
    "wf (ack k s)" "sent (ack k s) = sent s" "base (ack k s) = base s + m"
    "kept (ack k s) = drop m (kept s)" "m \<le> length (kept s)" by blast
  with H show ?thesis by (simp add: rep_def add.commute)
qed

text \<open>Every byte not yet acknowledged is still held, in order.\<close>

lemma rep_unacked: "rep H F s \<Longrightarrow> drop (acked s) H = drop (acked s - base s) (kept s)"
  using bounds [of s] by (simp add: rep_def)

lemma rep_all_sent: "rep H F s \<Longrightarrow> F = H \<longleftrightarrow> sent s = base s + length (kept s)"
  using rep_length [of H F s] bounds [of s] unfolding rep_def
  by (metis length_take min.absorb2 take_all_iff order.refl)

end

text \<open>The operations of a stream, in the shape of the contract.\<close>

definition stream_room :: "bool \<Rightarrow> bytes \<Rightarrow> stream \<Rightarrow> bool" where
  "stream_room fin d s \<longleftrightarrow> \<not> reset s \<and> \<not> closed s \<and> \<not> fin_sent s \<and>
     unat (pending_shifted s) + length (retained s) + length d < 2 ^ 64"

definition stream_put :: "bool \<Rightarrow> bytes \<Rightarrow> stream \<Rightarrow> stream" where
  "stream_put fin d s = (case quic_stream_enqueue (VStr ASCII_8BIT d) fin s of Inl e \<Rightarrow> s | Inr (n, s') \<Rightarrow> s')"

definition stream_commit :: "ngtcp2_consts \<Rightarrow> int \<Rightarrow> nat \<Rightarrow> stream \<Rightarrow> stream" where
  "stream_commit K n k s = (case stream_pick K s of None \<Rightarrow> s | Some (dv, fl) \<Rightarrow> stream_account K fl dv n (int k) s)"

lemma enqueue_stream_put:
  "quic_stream_enqueue (VStr enc bs) fin s = Inr (n, s') \<Longrightarrow> s' = stream_put fin bs s"
  by (auto simp: stream_put_def enqueue_VStr split: if_splits)

interpretation sb: send_buffer stream_wf "\<lambda>s. unat (pending_shifted s)" "\<lambda>s. unat (sent_offset s)"
    "\<lambda>s. unat (acked_offset s)" retained stream_room stream_put "offered K" "stream_commit K"
    "\<lambda>k. stream_acked (of_nat k)"
  for K
proof unfold_locales
  fix s :: stream and m :: bool and d :: bytes and k :: nat and n :: int
  assume wf: "stream_wf s"
  show "unat (pending_shifted s) \<le> unat (acked_offset s) \<and> unat (acked_offset s) \<le> unat (sent_offset s) \<and>
    unat (sent_offset s) \<le> unat (pending_shifted s) + length (retained s)"
    using wf by (simp add: stream_wf_def)
  show "\<exists>rest. drop (unat (sent_offset s) - unat (pending_shifted s)) (retained s) = offered K s @ rest"
    using offered_prefix [OF wf] .
  show "stream_wf (stream_put m d s) \<and> retained (stream_put m d s) = retained s @ d \<and>
    unat (pending_shifted (stream_put m d s)) = unat (pending_shifted s) \<and>
    unat (sent_offset (stream_put m d s)) = unat (sent_offset s) \<and>
    unat (acked_offset (stream_put m d s)) = unat (acked_offset s)" if "stream_room m d s"
    using that wf by (auto simp: stream_room_def stream_put_def enqueue_VStr stream_wf_def)
  show "offered K s \<noteq> []" if "unat (sent_offset s) < unat (pending_shifted s) + length (retained s)"
  proof (cases "stream_pick K s")
    case None
    with stream_pick_None [OF wf, of K] that wf show ?thesis by (auto simp: stream_wf_def)
  next
    case (Some p)
    then obtain dv fl where p: "stream_pick K s = Some (dv, fl)" by (cases p) auto
    show ?thesis
    proof (cases dv)
      case None
      with stream_pick_fin [OF wf, of K fl] p that wf show ?thesis by (auto simp: stream_wf_def)
    next
      case (Some v)
      with stream_pick_data [OF wf, of K v fl] p show ?thesis by (auto simp: offered_def)
    qed
  qed
  show "stream_wf (stream_commit K n k s) \<and> retained (stream_commit K n k s) = retained s \<and>
    unat (pending_shifted (stream_commit K n k s)) = unat (pending_shifted s) \<and>
    unat (sent_offset (stream_commit K n k s)) = unat (sent_offset s) + k \<and>
    unat (acked_offset (stream_commit K n k s)) = unat (acked_offset s)" if k: "k \<le> length (offered K s)"
  proof (cases "stream_pick K s")
    case None
    with k wf show ?thesis by (simp add: stream_commit_def offered_def)
  next
    case (Some p)
    then obtain dv fl where p: "stream_pick K s = Some (dv, fl)" by (cases p) auto
    with k have "int k \<le> (case dv of None \<Rightarrow> 0 | Some d \<Rightarrow> int (length d))"
      by (simp add: offered_def split: option.splits)
    from stream_wf_account [OF wf p this] account_sent_unat [OF wf p this] p show ?thesis
      by (simp add: stream_commit_def)
  qed
  show "stream_wf (stream_acked (of_nat k) s) \<and>
    unat (sent_offset (stream_acked (of_nat k) s)) = unat (sent_offset s) \<and>
    unat (acked_offset (stream_acked (of_nat k) s)) = unat (acked_offset s) + k \<and>
    (\<exists>m. unat (pending_shifted (stream_acked (of_nat k) s)) = unat (pending_shifted s) + m \<and>
      retained (stream_acked (of_nat k) s) = drop m (retained s) \<and> m \<le> length (retained s))"
    if "k < 2 ^ 64" "unat (acked_offset s) + k \<le> unat (sent_offset s)"
  proof -
    have u: "unat (of_nat k :: uint64) = k" using that(1) by (rule unat_of_nat64)
    with that have a: "unat (acked_offset s) + unat (of_nat k :: uint64) \<le> unat (sent_offset s)" by simp
    show ?thesis
    proof (rule stream_acked_spec [OF wf a])
      fix dropped
      assume *: "pending_chunks s = dropped @ pending_chunks (stream_acked (of_nat k) s)"
        "unat (pending_shifted (stream_acked (of_nat k) s)) = unat (pending_shifted s) + nbytes dropped"
        "unat (acked_offset (stream_acked (of_nat k) s)) = unat (acked_offset s) + unat (of_nat k :: uint64)"
      from *(1) have "retained s = concat dropped @ retained (stream_acked (of_nat k) s)"
        by (metis concat_append)
      with * u stream_wf_acked [OF wf a] show ?thesis
        by (auto simp: length_concat intro!: exI [of _ "nbytes dropped"])
    qed
  qed
qed

section \<open>Every run of the send side\<close>

text \<open>
  \<open>send_trace K s H F\<close>: the stream \<open>s\<close> is reached from a new one by writes, by packets and by
  acknowledgements; \<open>H\<close> is everything written, \<open>F\<close> everything ngtcp2 framed, both in order.
  The side conditions are what the callers guarantee: fewer than \<open>2^64\<close> bytes are ever
  written, ngtcp2 frames no more than it was offered and acknowledges no more than was sent.
\<close>

inductive send_trace :: "ngtcp2_consts \<Rightarrow> stream \<Rightarrow> bytes \<Rightarrow> bytes \<Rightarrow> bool" for K where
  fresh: "send_trace K (quic_stream_new sid c) [] []"
| wrote: "send_trace K s H F \<Longrightarrow> quic_stream_enqueue (VStr enc d) fin s = Inr (n, s') \<Longrightarrow>
    length H + length d < 2 ^ 64 \<Longrightarrow> send_trace K s' (H @ d) F"
| packet: "send_trace K s H F \<Longrightarrow> stream_pick K s = Some (dv, fl) \<Longrightarrow>
    pd \<le> (case dv of None \<Rightarrow> 0 | Some v \<Rightarrow> int (length v)) \<Longrightarrow>
    send_trace K (stream_account K fl dv n pd s) H (F @ take (nat pd) (case dv of None \<Rightarrow> [] | Some v \<Rightarrow> v))"
| acked: "send_trace K s H F \<Longrightarrow> unat (acked_offset s) + unat d \<le> unat (sent_offset s) \<Longrightarrow>
    send_trace K (stream_acked d s) H F"

lemma account_nonpos: "stream_account K fl dv n pd s = stream_account K fl dv n (int (nat pd)) s"
  by (simp add: stream_account_def Let_def)

lemma send_trace_rep: "send_trace K s H F \<Longrightarrow> sb.rep H F s"
proof (induction rule: send_trace.induct)
  case (fresh sid c)
  then show ?case by (simp add: sb.rep_def stream_wf_new)
next
  case (wrote s H F enc d fin n s')
  have "stream_room fin d s"
    using wrote sb.rep_length [OF wrote.IH] by (simp add: stream_room_def enqueue_Inr_iff)
  with sb.rep_put [OF wrote.IH] enqueue_stream_put [OF wrote.hyps(2)] show ?case by simp
next
  case (packet s H F dv fl pd n)
  have o: "offered K s = (case dv of None \<Rightarrow> [] | Some v \<Rightarrow> v)"
    using packet.hyps by (simp add: offered_def split: option.splits)
  have c: "stream_commit K n (nat pd) s = stream_account K fl dv n pd s"
    using packet.hyps account_nonpos [of K fl dv n pd s] by (simp add: stream_commit_def)
  have "nat pd \<le> length (offered K s)"
    using packet.hyps o by (cases dv) auto
  from sb.rep_commit [OF packet.IH this, of n] show ?case by (simp only: o c)
next
  case (acked s H F d)
  have "(of_nat (unat d) :: uint64) = d" by simp
  with sb.rep_ack [OF acked.IH unat_lt64, of d] acked.hyps show ?case by simp
qed

lemma send_trace_wf: "send_trace K s H F \<Longrightarrow> stream_wf s"
  using send_trace_rep by (simp add: sb.rep_def)

text \<open>A concrete run: three bytes written, two of them framed, one acknowledged.\<close>

definition sample_run :: "stream \<times> bytes \<times> bytes" where
  "sample_run = (stream_acked 1 (stream_account sample_consts 0 (Some [10, 20, 30]) 100 2
     (stream_put False [10, 20, 30] (quic_stream_new 4 True))), [10, 20, 30], [10, 20])"

lemma sample_run_trace: "send_trace sample_consts (fst sample_run) (fst (snd sample_run)) (snd (snd sample_run))"
proof -
  let ?s = "stream_put False [10, 20, 30] (quic_stream_new 4 True)"
  have p: "?s = (quic_stream_new 4 True)\<lparr>pending_chunks := [[10, 20, 30]], fin_sent := False\<rparr>"
    by (simp add: stream_put_def enqueue_VStr)
  have w: "send_trace sample_consts ?s ([] @ [10, 20, 30]) []"
    by (rule send_trace.wrote [OF send_trace.fresh, where enc = ASCII_8BIT and fin = False and n = 3])
      (simp_all add: p enqueue_VStr)
  have k: "stream_pick sample_consts ?s = Some (Some [10, 20, 30], 0)"
    by (simp add: p stream_pick_def)
  have "send_trace sample_consts (stream_account sample_consts 0 (Some [10, 20, 30]) 100 2 ?s)
    [10, 20, 30] [10, 20]"
    using send_trace.packet [OF w k, where pd = 2 and n = 100] by simp
  then have "send_trace sample_consts (fst sample_run) [10, 20, 30] [10, 20]"
    unfolding sample_run_def fst_conv
    by (rule send_trace.acked) (simp add: p account_sent_offset)
  then show ?thesis by (simp add: sample_run_def)
qed

section \<open>Properties\<close>

text \<open>
  C1. In-order delivery to the transport. In every run of a stream, the bytes ngtcp2 has
  framed are exactly the first \<open>sent_offset\<close> bytes of what the application wrote, in order,
  without gap or duplicate; and once \<open>fin_flushed\<close> is set every written byte has been framed
  and FIN was requested.
\<close>

theorem send_in_order:
  assumes "send_trace K s H F"
  shows "F = take (unat (sent_offset s)) H \<and> unat (sent_offset s) \<le> length H \<and>
    (fin_flushed s \<longrightarrow> F = H \<and> fin_sent s)"
proof -
  have r: "sb.rep H F s" using assms by (rule send_trace_rep)
  then have "stream_wf s" by (simp add: sb.rep_def)
  with r sb.rep_length [OF r] show ?thesis by (auto simp: sb.rep_def stream_wf_def)
qed

theorem send_in_order_witness:
  "send_trace sample_consts (fst sample_run) (fst (snd sample_run)) (snd (snd sample_run)) \<and>
   snd (snd sample_run) = take (unat (sent_offset (fst sample_run))) (fst (snd sample_run))"
  using sample_run_trace send_in_order [OF sample_run_trace] by blast

text \<open>
  C2. Retransmission safety. ngtcp2 keeps pointers into the chunks until their bytes are
  acknowledged; in every run the stream still holds every unacknowledged byte, in order, and
  every chunk that was dropped lies wholly before the acknowledged offset, which never passes
  the sent offset.
\<close>

theorem unacked_bytes_retained:
  assumes "send_trace K s H F"
  shows "drop (unat (acked_offset s)) H =
      drop (unat (acked_offset s) - unat (pending_shifted s)) (retained s) \<and>
    unat (pending_shifted s) \<le> unat (acked_offset s) \<and> unat (acked_offset s) \<le> unat (sent_offset s)"
  using sb.rep_unacked [OF send_trace_rep [OF assms]] send_trace_wf [OF assms]
  by (simp add: stream_wf_def)

theorem unacked_bytes_retained_witness:
  "send_trace sample_consts (fst sample_run) (fst (snd sample_run)) (snd (snd sample_run)) \<and>
   drop (unat (acked_offset (fst sample_run))) (fst (snd sample_run)) =
     drop (unat (acked_offset (fst sample_run)) - unat (pending_shifted (fst sample_run)))
       (retained (fst sample_run))"
  using sample_run_trace unacked_bytes_retained [OF sample_run_trace] by blast

text \<open>
  The acknowledgement loop frees exactly the acknowledged chunks: the chunks it drops are
  a prefix, \<open>pending_shifted\<close> grows by their total length, and the chunk left at the head (if
  any) contains a byte that is not acknowledged, so nothing that could be freed is kept.
\<close>

theorem acked_drops_maximal_prefix:
  assumes "stream_wf s" "unat (acked_offset s) + unat d \<le> unat (sent_offset s)"
  shows "\<exists>dropped. pending_chunks s = dropped @ pending_chunks (stream_acked d s) \<and>
    unat (pending_shifted (stream_acked d s)) = unat (pending_shifted s) + nbytes dropped \<and>
    unat (pending_shifted (stream_acked d s)) \<le> unat (acked_offset s) + unat d \<and>
    (pending_chunks (stream_acked d s) \<noteq> [] \<longrightarrow>
      unat (acked_offset s) + unat d <
      unat (pending_shifted (stream_acked d s)) + length (hd (pending_chunks (stream_acked d s))))"
  by (rule stream_acked_spec [OF assms]) auto

theorem acked_drops_maximal_prefix_witness:
  "stream_wf ((quic_stream_new 4 True)\<lparr>pending_chunks := [[1], [2, 3]], sent_offset := 3\<rparr>) \<and>
   (\<exists>dropped. [[1], [2, 3]] = dropped @ pending_chunks (stream_acked 2
      ((quic_stream_new 4 True)\<lparr>pending_chunks := [[1], [2, 3]], sent_offset := 3\<rparr>)))"
proof -
  let ?s = "(quic_stream_new 4 True)\<lparr>pending_chunks := [[1], [2, 3]], sent_offset := 3\<rparr>"
  have wf: "stream_wf ?s" by (simp add: stream_wf_def)
  have "unat (acked_offset ?s) + unat (2 :: uint64) \<le> unat (sent_offset ?s)" by simp
  from acked_drops_maximal_prefix [OF wf this] wf show ?thesis by auto
qed

lemma stream_pick_last_fin:
  assumes wf: "stream_wf s" and p: "stream_pick K s = Some (Some v, fl)"
    and last: "drop (send_pos s) (retained s) = v" and "fin_sent s"
  shows "fl = WRITE_STREAM_FLAG_FIN K"
proof -
  have nb: "nbytes (pending_chunks s) < 2 ^ 64" and ne: "[] \<notin> set (pending_chunks s)"
    using wf by (simp_all add: stream_wf_def length_concat)
  from p obtain i off where f: "find_chunk (sent_offset s - pending_shifted s) 0 (pending_chunks s) = Some (i, off)"
    and v: "v = drop off (pending_chunks s ! i)"
    and fl: "fl = (if fin_sent s \<and> int i = int (length (pending_chunks s)) - 1 then WRITE_STREAM_FLAG_FIN K else 0)"
    by (auto simp: stream_pick_def Let_def split: if_splits option.splits)
  have "concat (drop (Suc i) (pending_chunks s)) = []"
    using find_chunk_Some [OF f nb] unat_position [OF wf] last v by simp
  moreover have "[] \<notin> set (drop (Suc i) (pending_chunks s))" using ne set_drop_subset by fastforce
  ultimately have "drop (Suc i) (pending_chunks s) = []" by (cases "drop (Suc i) (pending_chunks s)") auto
  then show ?thesis using find_chunk_Some [OF f nb] fl assms(4) by simp
qed

text \<open>
  Sending makes progress. A stream with unsent bytes always offers some of them, and any
  packet that frames \<open>pd > 0\<close> of the offered bytes leaves exactly \<open>pd\<close> bytes less to send, so a
  transport that keeps accepting data drains the stream in at most as many packets as it has
  unsent bytes; with the last byte a requested FIN is marked as flushed.
\<close>

theorem send_makes_progress:
  assumes wf: "stream_wf s" and more: "send_pos s < length (retained s)" and K: "flags_nonzero K"
  shows "\<exists>v fl. stream_pick K s = Some (Some v, fl) \<and> v \<noteq> [] \<and>
    (\<forall>n pd s'. 0 < pd \<longrightarrow> pd \<le> length v \<longrightarrow> s' = stream_account K fl (Some v) n (int pd) s \<longrightarrow>
      stream_wf s' \<and> send_pos s' = send_pos s + pd \<and> retained s' = retained s \<and>
      (send_pos s' = length (retained s) \<longrightarrow> fin_flushed s' = fin_sent s))"
proof -
  obtain dv fl where p0: "stream_pick K s = Some (dv, fl)"
    using stream_pick_None [OF wf, of K] more by fastforce
  moreover have "dv \<noteq> None" using stream_pick_fin(1) [OF wf, of K fl] p0 more by auto
  ultimately obtain v where p: "stream_pick K s = Some (Some v, fl)" by auto
  obtain rest where r: "drop (send_pos s) (retained s) = v @ rest" "v \<noteq> []" "\<not> fin_flushed s"
    "fl = 0 \<or> fl = WRITE_STREAM_FLAG_FIN K \<and> fin_sent s \<and> rest = []"
    using stream_pick_data [OF wf p] by blast
  have len: "length (retained s) - send_pos s = length v + length rest"
    using r(1) by (metis length_append length_drop)
  have "stream_wf s' \<and> send_pos s' = send_pos s + pd \<and> retained s' = retained s \<and>
      (send_pos s' = length (retained s) \<longrightarrow> fin_flushed s' = fin_sent s)"
    if pd: "0 < pd" "pd \<le> length v" and s': "s' = stream_account K fl (Some v) n (int pd) s" for n pd s'
  proof -
    have c: "int pd \<le> (case Some v of None \<Rightarrow> 0 | Some d \<Rightarrow> int (length d))" using pd by simp
    have u: "send_pos s' = send_pos s + pd"
      using account_sent_unat [OF wf p c, of n] wf by (simp add: s' stream_wf_def)
    moreover have "fin_flushed s' = fin_sent s" if "send_pos s' = length (retained s)"
    proof -
      have "length v + length rest = pd" using that u len by linarith
      with pd(2) have all: "pd = length v" "rest = []" by (simp, cases rest, simp_all)
      then have "fin_sent s \<Longrightarrow> fl = WRITE_STREAM_FLAG_FIN K" using stream_pick_last_fin [OF wf p] r(1) by simp
      then show ?thesis
        using r(3,4) all pd(1) K by (auto simp: s' stream_account_def flags_nonzero_def Let_def)
    qed
    ultimately show ?thesis using stream_wf_account [OF wf p c] by (simp add: s')
  qed
  with p r(2) show ?thesis by blast
qed

theorem send_makes_progress_witness:
  "\<exists>v fl. stream_pick sample_consts ((quic_stream_new 0 True)\<lparr>pending_chunks := [[1, 2]], fin_sent := True\<rparr>) = Some (Some v, fl) \<and>
     v \<noteq> []"
proof -
  let ?s = "(quic_stream_new 0 True)\<lparr>pending_chunks := [[1, 2]], fin_sent := True\<rparr>"
  have "stream_wf ?s" by (simp add: stream_wf_def)
  from send_makes_progress [OF this _ sample_consts_ok(2)] show ?thesis by fastforce
qed

end
