(* ===== verification/Stream_Recv.thy ===== *)
theory Stream_Recv
  imports Quic_Stream
begin

unbundle bit_operations_syntax

text \<open>
  The receive side of one stream: \<open>stream_recv\<close> is the end of \<open>quic_recv_stream_data_cb\<close>
  (append to \<open>@recv_buffer\<close>, note FIN), \<open>quic_stream_read_nonblock_m\<close> takes bytes out again.
  The locale \<open>receive_buffer\<close> states what a reader relies on; its client lemma is that nothing
  is lost, duplicated or reordered between delivery and reading.
\<close>

definition stream_recv :: "ngtcp2_consts \<Rightarrow> uint32 \<Rightarrow> bytes \<Rightarrow> stream \<Rightarrow> stream" where
  "stream_recv K flags data s =
     (let s1 = (if length data > 0 then s\<lparr>recv_buffer := recv_buffer s @ data\<rparr> else s)
      in if flags AND STREAM_DATA_FLAG_FIN K \<noteq> 0 then s1\<lparr>fin_received := True\<rparr> else s1)"

lemma stream_recv_buffer [simp]: "recv_buffer (stream_recv K flags data s) = recv_buffer s @ data"
  by (simp add: stream_recv_def Let_def)

lemma stream_recv_fin [simp]:
  "fin_received (stream_recv K flags data s) \<longleftrightarrow> fin_received s \<or> flags AND STREAM_DATA_FLAG_FIN K \<noteq> 0"
  by (simp add: stream_recv_def Let_def)

lemma stream_recv_frame [simp]:
  "stream_id (stream_recv K fl d s) = stream_id s" "sent_offset (stream_recv K fl d s) = sent_offset s"
  "acked_offset (stream_recv K fl d s) = acked_offset s"
  "pending_shifted (stream_recv K fl d s) = pending_shifted s"
  "pending_chunks (stream_recv K fl d s) = pending_chunks s"
  "fin_sent (stream_recv K fl d s) = fin_sent s" "fin_flushed (stream_recv K fl d s) = fin_flushed s"
  "reset (stream_recv K fl d s) = reset s" "closed (stream_recv K fl d s) = closed s"
  "accept_queued (stream_recv K fl d s) = accept_queued s" "has_client (stream_recv K fl d s) = has_client s"
  "iv_id (stream_recv K fl d s) = iv_id s"
  "close_has_app_error_code (stream_recv K fl d s) = close_has_app_error_code s"
  "close_app_error_code (stream_recv K fl d s) = close_app_error_code s"
  by (simp_all add: stream_recv_def Let_def)

section \<open>The contract of a receive buffer\<close>

locale receive_buffer =
  fixes content :: "'s \<Rightarrow> 'b list"
    and deliver :: "'f \<Rightarrow> 'b list \<Rightarrow> 's \<Rightarrow> 's"
    and read :: "'q \<Rightarrow> 's \<Rightarrow> ('b list \<times> 's) option"
  assumes deliver_law: "content (deliver f d s) = content s @ d"
    and read_law: "read q s = Some (out, s') \<Longrightarrow> content s = out @ content s'"
begin

text \<open>\<open>acct R D s\<close>: of the bytes \<open>R\<close> delivered so far, \<open>D\<close> have been read.\<close>

definition acct :: "'b list \<Rightarrow> 'b list \<Rightarrow> 's \<Rightarrow> bool" where
  "acct R D s \<longleftrightarrow> R = D @ content s"

lemma acct_deliver: "acct R D s \<Longrightarrow> acct (R @ d) D (deliver f d s)"
  by (simp add: acct_def deliver_law)

lemma acct_read: "acct R D s \<Longrightarrow> read q s = Some (out, s') \<Longrightarrow> acct R (D @ out) s'"
  by (auto simp: acct_def dest: read_law)

end

definition read_ok :: "rvalue \<Rightarrow> stream \<Rightarrow> (bytes \<times> stream) option" where
  "read_ok v s = (case quic_stream_read_nonblock_m v s of Inl e \<Rightarrow> None | Inr r \<Rightarrow> Some r)"

interpretation rb: receive_buffer recv_buffer "stream_recv K" read_ok for K
proof unfold_locales
  fix v s out s'
  assume "read_ok v s = Some (out, s')"
  then show "recv_buffer s = out @ recv_buffer s'"
    by (auto simp: read_ok_def split: sum.splits intro: read_nonblock_take_drop)
qed simp

section \<open>Every run of the receive side\<close>

text \<open>
  \<open>recv_trace K s R D\<close>: \<open>s\<close> is reached from a new stream by deliveries (\<open>R\<close>, in order) and
  successful reads (\<open>D\<close>, in order). A failed read changes nothing and needs no rule.
\<close>

inductive recv_trace :: "ngtcp2_consts \<Rightarrow> stream \<Rightarrow> bytes \<Rightarrow> bytes \<Rightarrow> bool" for K where
  recv_fresh: "recv_trace K (quic_stream_new sid c) [] []"
| recv_data: "recv_trace K s R D \<Longrightarrow> recv_trace K (stream_recv K flags d s) (R @ d) D"
| recv_read: "recv_trace K s R D \<Longrightarrow> quic_stream_read_nonblock_m v s = Inr (out, s') \<Longrightarrow>
    recv_trace K s' R (D @ out)"

lemma recv_trace_acct: "recv_trace K s R D \<Longrightarrow> rb.acct R D s"
proof (induction rule: recv_trace.induct)
  case (recv_fresh sid c)
  show ?case by (simp add: rb.acct_def)
next
  case (recv_data s R D flags d)
  then show ?case by (intro rb.acct_deliver)
next
  case (recv_read s R D v out s')
  then show ?case by (intro rb.acct_read [of R D s v]) (simp_all add: read_ok_def)
qed

section \<open>Properties\<close>

text \<open>
  Reading returns the peer's bytes. In every run, what \<open>read_nonblock\<close> returned so far
  followed by the buffer is exactly what the transport delivered; when \<open>eof?\<close> is true
  everything delivered has been read.
\<close>

theorem recv_read_round_trip:
  assumes "recv_trace K s R D"
  shows "R = D @ recv_buffer s \<and> (quic_stream_eof_p s \<longrightarrow> D = R)"
  using recv_trace_acct [OF assms] by (auto simp: rb.acct_def quic_stream_eof_p_def)

theorem recv_read_round_trip_witness:
  "recv_trace sample_consts ((quic_stream_new 1 True)\<lparr>recv_buffer := [7], fin_received := True\<rparr>) [5, 6, 7] [5, 6] \<and>
   [5, 6, 7] = [5, 6] @ [7 :: byte]"
proof -
  let ?s = "stream_recv sample_consts 1 [5, 6, 7] (quic_stream_new 1 True)"
  have "recv_trace sample_consts ?s ([] @ [5, 6, 7]) []"
    by (rule recv_trace.recv_data [OF recv_trace.recv_fresh])
  moreover have "quic_stream_read_nonblock_m (VInt 2) ?s =
    Inr ([5, 6], (quic_stream_new 1 True)\<lparr>recv_buffer := [7], fin_received := True\<rparr>)"
    by (simp add: read_nonblock_Inr_iff) (simp add: stream_recv_def sample_consts_def)
  ultimately have t: "recv_trace sample_consts
      ((quic_stream_new 1 True)\<lparr>recv_buffer := [7], fin_received := True\<rparr>) [5, 6, 7] [5, 6]"
    using recv_trace.recv_read [of sample_consts ?s "[5, 6, 7]" "[]" "VInt 2" "[5, 6]"] by simp
  from recv_read_round_trip [OF t] t show ?thesis by simp
qed

text \<open>
  The complete behaviour of \<open>read_nonblock\<close>, in the order the code checks: a non-Integer
  is a TypeError, an Integer outside the range of \<^verbatim>\<open>long\<close> a RangeError, a negative one an
  ArgumentError; on an empty buffer EOFError after FIN and WaitReadable before it; otherwise
  the first \<open>min(length, bytesize)\<close> bytes are returned and removed from the buffer, and no
  other field changes.
\<close>

theorem read_nonblock_behaviour:
  "quic_stream_read_nonblock_m v s =
     (case v of
        VInt i \<Rightarrow>
          if i < - (2 ^ 63) \<or> 2 ^ 63 \<le> i then rb_raise RangeError
          else if i < 0 then rb_raise ArgumentError
          else if recv_buffer s = [] then
            (if fin_received s then rb_raise EOFError else rb_raise (QuicError QWaitReadable))
          else Inr (take (nat i) (recv_buffer s), s\<lparr>recv_buffer := drop (nat i) (recv_buffer s)\<rparr>)
      | _ \<Rightarrow> rb_raise TypeError)"
proof (cases v)
  case (VInt i)
  show ?thesis
  proof (cases "0 \<le> i \<and> i < 2 ^ 63 \<and> recv_buffer s \<noteq> []")
    case True
    then have "quic_stream_read_nonblock_m (VInt i) s =
        Inr (take (nat i) (recv_buffer s), s\<lparr>recv_buffer := drop (nat i) (recv_buffer s)\<rparr>)"
      by (simp add: read_nonblock_Inr_iff)
    with VInt True show ?thesis by simp
  next
    case False
    with VInt show ?thesis by (auto simp: quic_stream_read_nonblock_m_def)
  qed
qed (simp_all add: quic_stream_read_nonblock_m_def)

end
