(* ===== verification/Client_State.thy ===== *)
theory Client_State
  imports Stream_Send Stream_Recv
begin

unbundle bit_operations_syntax

text \<open>
  A \<^verbatim>\<open>Quic::Connection::Client\<close> at run time and the ngtcp2 callbacks of
  \<^verbatim>\<open>ext/quic/connection_client.c\<close>.

  Stream objects live in an explicit object store (\<open>heap\<close>), because the registry
  \<open>@streams\<close>, the queue \<open>@accept_queue\<close> and the application hold references to the same
  objects, and a stream that has left the registry is still read from. \<open>ext_st\<close> is the state of
  the external libraries. The callbacks always return 0 to ngtcp2, so only their effect on the
  client is modelled.
\<close>

section \<open>State\<close>

record 'x client =
  ext_st :: 'x
  heap :: "nat \<rightharpoonup> stream"
  next_ref :: nat
  streams :: "(int \<times> nat) list"
  accept_queue :: "nat list"
  sock :: "nat option"
  iv_pump_local_sockaddr :: "bytes option"
  iv_pump_remote_sockaddr :: "bytes option"

text \<open>Allocate a stream object and store it in the registry under its id.\<close>

definition register_stream :: "uint64 \<Rightarrow> 'x client \<Rightarrow> nat \<times> 'x client" where
  "register_stream sid w =
     (let r = next_ref w in
      (r, w\<lparr>heap := (heap w)(r \<mapsto> quic_stream_new sid True), next_ref := Suc r,
            streams := hash_aset (streams w) (LL2NUM sid) r\<rparr>))"

definition quic_client_lookup_stream :: "'x client \<Rightarrow> uint64 \<Rightarrow> nat option" where
  "quic_client_lookup_stream w sid = hash_aref (streams w) (LL2NUM sid)"

definition put_stream :: "nat \<Rightarrow> stream \<Rightarrow> 'x client \<Rightarrow> 'x client" where
  "put_stream r s w = w\<lparr>heap := (heap w)(r \<mapsto> s)\<rparr>"

section \<open>Callbacks\<close>

definition quic_stream_open_cb :: "uint64 \<Rightarrow> 'x client \<Rightarrow> 'x client" where
  "quic_stream_open_cb sid w =
     (if hash_aref (streams w) (LL2NUM sid) \<noteq> None then w else snd (register_stream sid w))"

definition quic_recv_stream_data_cb :: "ngtcp2_consts \<Rightarrow> uint32 \<Rightarrow> uint64 \<Rightarrow> bytes \<Rightarrow> 'x client \<Rightarrow> 'x client" where
  "quic_recv_stream_data_cb K flags sid data w =
     (case quic_client_lookup_stream w sid of None \<Rightarrow> w
      | Some r \<Rightarrow> (case heap w r of None \<Rightarrow> w
        | Some s \<Rightarrow>
          if \<not> accept_queued s \<and> sid AND 1 \<noteq> 0
          then put_stream r (stream_recv K flags data (s\<lparr>accept_queued := True\<rparr>))
                 (w\<lparr>accept_queue := ary_push (accept_queue w) r\<rparr>)
          else put_stream r (stream_recv K flags data s) w))"

definition quic_acked_stream_data_offset_cb :: "uint64 \<Rightarrow> uint64 \<Rightarrow> 'x client \<Rightarrow> 'x client" where
  "quic_acked_stream_data_offset_cb sid datalen w =
     (case quic_client_lookup_stream w sid of None \<Rightarrow> w
      | Some r \<Rightarrow> (case heap w r of None \<Rightarrow> w
        | Some s \<Rightarrow> put_stream r (stream_acked datalen s) w))"

definition stream_closed :: "ngtcp2_consts \<Rightarrow> uint32 \<Rightarrow> uint64 \<Rightarrow> stream \<Rightarrow> stream" where
  "stream_closed K flags app_error_code s =
     (let s1 = s\<lparr>closed := True\<rparr>
      in if flags AND STREAM_CLOSE_FLAG_APP_ERROR_CODE_SET K \<noteq> 0
         then s1\<lparr>close_has_app_error_code := True, close_app_error_code := app_error_code\<rparr> else s1)"

definition quic_stream_close_cb :: "ngtcp2_consts \<Rightarrow> uint32 \<Rightarrow> uint64 \<Rightarrow> uint64 \<Rightarrow> 'x client \<Rightarrow> 'x client" where
  "quic_stream_close_cb K flags sid app_error_code w =
     (case hash_aref (streams w) (LL2NUM sid) of None \<Rightarrow> w
      | Some r \<Rightarrow> (case heap w r of None \<Rightarrow> w
        | Some s \<Rightarrow> (put_stream r (stream_closed K flags app_error_code s) w)
                      \<lparr>streams := hash_delete (streams w) (LL2NUM sid)\<rparr>))"

definition quic_stream_reset_cb :: "uint64 \<Rightarrow> uint64 \<Rightarrow> 'x client \<Rightarrow> 'x client" where
  "quic_stream_reset_cb sid app_error_code w =
     (case quic_client_lookup_stream w sid of None \<Rightarrow> w
      | Some r \<Rightarrow> (case heap w r of None \<Rightarrow> w
        | Some s \<Rightarrow> put_stream r
            (s\<lparr>reset := True, close_app_error_code := app_error_code, close_has_app_error_code := True\<rparr>) w))"

text \<open>The callback table of \<open>quic_client_open\<close>: which function an invocation runs.\<close>

fun run_event :: "ngtcp2_consts \<Rightarrow> ngtcp2_event \<Rightarrow> 'x client \<Rightarrow> 'x client" where
  "run_event K (Stream_open sid) w = quic_stream_open_cb sid w"
| "run_event K (Recv_stream_data flags sid off data) w = quic_recv_stream_data_cb K flags sid data w"
| "run_event K (Acked_stream_data_offset sid off datalen) w = quic_acked_stream_data_offset_cb sid datalen w"
| "run_event K (Stream_close flags sid code) w = quic_stream_close_cb K flags sid code w"
| "run_event K (Stream_reset sid final_size code) w = quic_stream_reset_cb sid code w"

fun run_events :: "ngtcp2_consts \<Rightarrow> ngtcp2_event list \<Rightarrow> 'x client \<Rightarrow> 'x client" where
  "run_events K [] w = w"
| "run_events K (e # es) w = run_events K es (run_event K e w)"

section \<open>What ngtcp2 guarantees about its invocations\<close>

text \<open>
  ngtcp2 acknowledges only bytes it was given: for the stream an acknowledgement names, the
  acknowledged offset does not pass the sent offset.
\<close>

fun event_ok :: "'x client \<Rightarrow> ngtcp2_event \<Rightarrow> bool" where
  "event_ok w (Acked_stream_data_offset sid off datalen) =
     (case quic_client_lookup_stream w sid of None \<Rightarrow> True
      | Some r \<Rightarrow> (case heap w r of None \<Rightarrow> True
        | Some s \<Rightarrow> unat (acked_offset s) + unat datalen \<le> unat (sent_offset s)))"
| "event_ok w _ = True"

fun events_ok :: "ngtcp2_consts \<Rightarrow> 'x client \<Rightarrow> ngtcp2_event list \<Rightarrow> bool" where
  "events_ok K w [] = True"
| "events_ok K w (e # es) = (event_ok w e \<and> events_ok K (run_event K e w) es)"

section \<open>Invariant\<close>

text \<open>
  The registry has one entry per id, each to a live, open stream object with that id; every
  object is well formed; the accept queue holds, at most once each, objects that are marked as
  queued, and only server-initiated streams are ever marked.
\<close>

definition obj_wf :: "'x client \<Rightarrow> nat \<Rightarrow> stream \<Rightarrow> bool" where
  "obj_wf w r s \<longleftrightarrow> r < next_ref w \<and> stream_wf s \<and> iv_id s = LL2NUM (stream_id s) \<and> has_client s \<and>
     (accept_queued s \<longrightarrow> stream_id s AND 1 \<noteq> 0)"

definition registry_wf :: "'x client \<Rightarrow> bool" where
  "registry_wf w \<longleftrightarrow> distinct (map fst (streams w)) \<and>
     (\<forall>k r. hash_aref (streams w) k = Some r \<longrightarrow>
        (\<exists>s. heap w r = Some s \<and> LL2NUM (stream_id s) = k \<and> \<not> closed s))"

definition queue_wf :: "'x client \<Rightarrow> bool" where
  "queue_wf w \<longleftrightarrow> distinct (accept_queue w) \<and>
     (\<forall>r \<in> set (accept_queue w). \<exists>s. heap w r = Some s \<and> accept_queued s)"

definition client_wf :: "'x client \<Rightarrow> bool" where
  "client_wf w \<longleftrightarrow> registry_wf w \<and> queue_wf w \<and> (\<forall>r s. heap w r = Some s \<longrightarrow> obj_wf w r s)"

lemma LL2NUM_inj: "LL2NUM a = LL2NUM b \<longleftrightarrow> a = b"
  by (auto simp: LL2NUM_def intro: signed_word_eqI)

lemma client_wf_obj: "client_wf w \<Longrightarrow> heap w r = Some s \<Longrightarrow> obj_wf w r s"
  by (simp add: client_wf_def)

lemma lookup_live:
  assumes "client_wf w" "quic_client_lookup_stream w sid = Some r"
  obtains s where "heap w r = Some s" "stream_id s = sid" "\<not> closed s" "obj_wf w r s"
proof -
  from assms obtain s where "heap w r = Some s" "LL2NUM (stream_id s) = LL2NUM sid" "\<not> closed s"
    unfolding client_wf_def registry_wf_def quic_client_lookup_stream_def by blast
  with that client_wf_obj [OF assms(1)] show ?thesis by (auto simp: LL2NUM_inj)
qed

text \<open>Replacing one object by another with the same identity keeps the client well formed.\<close>

lemma client_wf_put:
  assumes "client_wf w" "heap w r = Some s" "obj_wf w r s'" "stream_id s' = stream_id s"
    and "closed s' = closed s" "accept_queued s \<longrightarrow> accept_queued s'"
  shows "client_wf (put_stream r s' w)"
  using assms unfolding client_wf_def registry_wf_def queue_wf_def put_stream_def obj_wf_def
  by (auto split: if_splits) (metis option.inject)+

lemma client_wf_fresh: "client_wf w \<Longrightarrow> heap w (next_ref w) = None"
  by (cases "heap w (next_ref w)") (auto simp: client_wf_def obj_wf_def)

lemma client_wf_register:
  assumes "client_wf w" "register_stream sid w = (r, w')"
  shows "client_wf w'"
proof -
  have fresh: "heap w (next_ref w) = None" using assms(1) by (rule client_wf_fresh)
  have w': "w' = w\<lparr>heap := (heap w)(next_ref w \<mapsto> quic_stream_new sid True), next_ref := Suc (next_ref w),
      streams := hash_aset (streams w) (LL2NUM sid) (next_ref w)\<rparr>"
    using assms(2) by (auto simp: register_stream_def Let_def)
  have "registry_wf w'"
    using assms(1) fresh
    by (auto simp: w' client_wf_def registry_wf_def hash.aref_aset hash.invar_aset) fastforce
  moreover have "queue_wf w'"
    using assms(1) fresh by (auto simp: w' client_wf_def queue_wf_def)
  moreover have "\<forall>r s. heap w' r = Some s \<longrightarrow> obj_wf w' r s"
    using assms(1) by (auto simp: w' client_wf_def obj_wf_def stream_wf_new LL2NUM_def less_Suc_eq)
  ultimately show ?thesis by (simp add: client_wf_def)
qed

section \<open>The callbacks keep the invariant\<close>

lemma client_wf_recv_cb: "client_wf w \<Longrightarrow> client_wf (quic_recv_stream_data_cb K flags sid data w)"
proof (cases "quic_client_lookup_stream w sid")
  case (Some r)
  assume wf: "client_wf w"
  from lookup_live [OF wf Some] obtain s where s: "heap w r = Some s" "stream_id s = sid" "\<not> closed s" "obj_wf w r s"
    by blast
  show ?thesis
  proof (cases "\<not> accept_queued s \<and> sid AND 1 \<noteq> 0")
    case False
    have "client_wf (put_stream r (stream_recv K flags data s) w)"
      using wf s by (intro client_wf_put [of w r s]) (simp_all add: obj_wf_def stream_wf_def)
    with Some s False show ?thesis by (auto simp: quic_recv_stream_data_cb_def)
  next
    case True
    let ?s = "stream_recv K flags data (s\<lparr>accept_queued := True\<rparr>)"
    have p: "client_wf (put_stream r ?s w)"
      using wf s True by (intro client_wf_put [of w r s]) (simp_all add: obj_wf_def stream_wf_def)
    have "r \<notin> set (accept_queue w)"
      using wf s True by (auto simp: client_wf_def queue_wf_def)
    with p have "client_wf (put_stream r ?s (w\<lparr>accept_queue := ary_push (accept_queue w) r\<rparr>))"
      by (auto simp: client_wf_def queue_wf_def registry_wf_def obj_wf_def put_stream_def ary_push_def)
    with Some s True show ?thesis by (simp add: quic_recv_stream_data_cb_def)
  qed
qed (simp add: quic_recv_stream_data_cb_def)

lemma client_wf_acked_cb:
  assumes wf: "client_wf w" and ok: "event_ok w (Acked_stream_data_offset sid off d)"
  shows "client_wf (quic_acked_stream_data_offset_cb sid d w)"
proof (cases "quic_client_lookup_stream w sid")
  case (Some r)
  from lookup_live [OF wf Some] obtain s where s: "heap w r = Some s" "stream_id s = sid" "\<not> closed s" "obj_wf w r s"
    by blast
  have "stream_wf (stream_acked d s)"
    using s ok Some by (intro stream_wf_acked) (simp_all add: obj_wf_def)
  with wf s have "client_wf (put_stream r (stream_acked d s) w)"
    by (intro client_wf_put [of w r s]) (simp_all add: obj_wf_def)
  with Some s show ?thesis by (simp add: quic_acked_stream_data_offset_cb_def)
qed (simp add: quic_acked_stream_data_offset_cb_def wf)

lemma stream_closed_frame [simp]:
  "stream_id (stream_closed K fl c s) = stream_id s" "closed (stream_closed K fl c s)"
  "accept_queued (stream_closed K fl c s) = accept_queued s" "iv_id (stream_closed K fl c s) = iv_id s"
  "has_client (stream_closed K fl c s) = has_client s" "stream_wf (stream_closed K fl c s) = stream_wf s"
  "recv_buffer (stream_closed K fl c s) = recv_buffer s" "fin_received (stream_closed K fl c s) = fin_received s"
  "fin_sent (stream_closed K fl c s) = fin_sent s" "fin_flushed (stream_closed K fl c s) = fin_flushed s"
  "sent_offset (stream_closed K fl c s) = sent_offset s" "acked_offset (stream_closed K fl c s) = acked_offset s"
  "pending_shifted (stream_closed K fl c s) = pending_shifted s"
  "pending_chunks (stream_closed K fl c s) = pending_chunks s" "reset (stream_closed K fl c s) = reset s"
  by (simp_all add: stream_closed_def Let_def stream_wf_def)

lemma client_wf_close_cb:
  assumes wf: "client_wf w"
  shows "client_wf (quic_stream_close_cb K flags sid code w)"
proof (cases "hash_aref (streams w) (LL2NUM sid)")
  case (Some r)
  then have l: "quic_client_lookup_stream w sid = Some r" by (simp add: quic_client_lookup_stream_def)
  from lookup_live [OF wf l] obtain s where s: "heap w r = Some s" "stream_id s = sid" "obj_wf w r s" by blast
  let ?w = "(put_stream r (stream_closed K flags code s) w)\<lparr>streams := hash_delete (streams w) (LL2NUM sid)\<rparr>"
  have d: "distinct (map fst (streams w))" using wf by (simp add: client_wf_def registry_wf_def)
  have "\<exists>s'. heap ?w r' = Some s' \<and> LL2NUM (stream_id s') = k \<and> \<not> closed s'"
    if "hash_aref (streams ?w) k = Some r'" for k r'
  proof -
    from that d have k: "k \<noteq> LL2NUM sid" "hash_aref (streams w) k = Some r'"
      by (auto simp: hash.aref_del split: if_splits)
    with wf obtain s' where "heap w r' = Some s'" "LL2NUM (stream_id s') = k" "\<not> closed s'"
      unfolding client_wf_def registry_wf_def by blast
    with s k show ?thesis by (auto simp: put_stream_def)
  qed
  with d have "registry_wf ?w" by (simp add: registry_wf_def hash.invar_del)
  moreover have "queue_wf ?w"
    using wf s by (auto simp: client_wf_def queue_wf_def put_stream_def)
  moreover have "\<forall>r s. heap ?w r = Some s \<longrightarrow> obj_wf ?w r s"
    using wf s by (auto simp: client_wf_def obj_wf_def put_stream_def)
  ultimately have "client_wf ?w" by (simp add: client_wf_def)
  with Some s show ?thesis by (simp add: quic_stream_close_cb_def)
qed (simp add: quic_stream_close_cb_def wf)

lemma client_wf_reset_cb:
  assumes wf: "client_wf w"
  shows "client_wf (quic_stream_reset_cb sid code w)"
proof (cases "quic_client_lookup_stream w sid")
  case (Some r)
  from lookup_live [OF wf Some] obtain s where s: "heap w r = Some s" "stream_id s = sid" "\<not> closed s" "obj_wf w r s"
    by blast
  let ?s = "s\<lparr>reset := True, close_app_error_code := code, close_has_app_error_code := True\<rparr>"
  from wf s have "client_wf (put_stream r ?s w)"
    by (intro client_wf_put [of w r s]) (simp_all add: obj_wf_def stream_wf_def)
  with Some s show ?thesis by (simp add: quic_stream_reset_cb_def)
qed (simp add: quic_stream_reset_cb_def wf)

lemma client_wf_run_event: "client_wf w \<Longrightarrow> event_ok w e \<Longrightarrow> client_wf (run_event K e w)"
proof (cases e)
  case (Stream_open sid)
  assume "client_wf w"
  then show ?thesis
    using client_wf_register [of w sid] Stream_open
    by (cases "register_stream sid w") (auto simp: quic_stream_open_cb_def)
qed (simp_all add: client_wf_recv_cb client_wf_acked_cb client_wf_close_cb client_wf_reset_cb)

lemma client_wf_run_events: "client_wf w \<Longrightarrow> events_ok K w es \<Longrightarrow> client_wf (run_events K es w)"
  by (induction K es w rule: run_events.induct) (auto simp: client_wf_run_event)

text \<open>The external state is not part of the invariant.\<close>

lemma client_wf_ext [simp]: "client_wf (w\<lparr>ext_st := x\<rparr>) = client_wf w"
  by (simp add: client_wf_def registry_wf_def queue_wf_def obj_wf_def)

lemma client_wf_sock [simp]: "client_wf (w\<lparr>sock := b\<rparr>) = client_wf w"
  by (simp add: client_wf_def registry_wf_def queue_wf_def obj_wf_def)

end
