(* ===== verification/Client_Ops.thy ===== *)
theory Client_Ops
  imports Client_State
begin

unbundle bit_operations_syntax

text \<open>
  The methods of \<^verbatim>\<open>Quic::Connection::Client\<close> that work on an open connection
  (\<^verbatim>\<open>ext/quic/connection_client.c\<close>: packets, timers, streams, closing) and the methods of
  \<^verbatim>\<open>Quic::Stream\<close> that call ngtcp2 (\<^verbatim>\<open>ext/quic/stream.c\<close>). Every method takes the client and
  returns an exception or a value together with the client it leaves behind. Whenever ngtcp2 is
  called, the callbacks it invokes run before the call returns (\<open>run_events\<close>).
\<close>

section \<open>Clock and casts\<close>

definition quic_now :: "'x ext \<Rightarrow> 'x \<Rightarrow> uint64 \<times> 'x" where
  "quic_now X x = (case x_clock_gettime X x of ((tv_sec, tv_nsec), x') \<Rightarrow>
     (word_of_int tv_sec * NGTCP2_SECONDS (consts_of X) + word_of_int tv_nsec, x'))"

text \<open>The C cast \<^verbatim>\<open>(int)n\<close> of a 64-bit result.\<close>

definition c_int :: "int \<Rightarrow> int" where
  "c_int n = signed_take_bit 31 n"

definition QUIC_WRITE_PKT_BUFLEN :: "ngtcp2_consts \<Rightarrow> nat" where
  "QUIC_WRITE_PKT_BUFLEN K = MAX_UDP_PAYLOAD_SIZE K"

definition quic_require_binary :: "rvalue \<Rightarrow> exn + bytes" where
  "quic_require_binary str = bindE (check_string str) (\<lambda>(enc, bs).
     if enc \<noteq> ASCII_8BIT then rb_raise ArgumentError else Inr bs)"

section \<open>Writing packets\<close>

record send_pick =
  pk_ref :: nat
  pk_datav :: "bytes option"
  pk_flags :: uint32
  pk_sid :: uint64

fun pick_loop :: "ngtcp2_consts \<Rightarrow> (nat \<rightharpoonup> stream) \<Rightarrow> nat list \<Rightarrow> send_pick option" where
  "pick_loop K hp [] = None"
| "pick_loop K hp (r # rs) =
     (case hp r of None \<Rightarrow> pick_loop K hp rs
      | Some s \<Rightarrow> (case stream_pick K s of None \<Rightarrow> pick_loop K hp rs
        | Some (datav, flags) \<Rightarrow>
            Some \<lparr>pk_ref = r, pk_datav = datav, pk_flags = flags, pk_sid = stream_id s\<rparr>))"

definition quic_client_pick_send_stream :: "ngtcp2_consts \<Rightarrow> 'x client \<Rightarrow> send_pick option" where
  "quic_client_pick_send_stream K w = pick_loop K (heap w) (hash_values (streams w))"

text \<open>
  The buffer a packet is written into: its content and a lower bound of its capacity
  (\<open>rb_str_modify_expand\<close> makes room for the given number of bytes behind the content).
\<close>

definition rb_str_modify_expand :: "bytes \<times> nat \<Rightarrow> nat \<Rightarrow> bytes \<times> nat" where
  "rb_str_modify_expand b expand = (fst b, max (snd b) (length (fst b) + expand))"

definition prepare_buffer :: "ngtcp2_consts \<Rightarrow> rvalue \<Rightarrow> exn + (bytes \<times> nat)" where
  "prepare_buffer K buffer =
     (let buflen = QUIC_WRITE_PKT_BUFLEN K in
      if NIL_P buffer then Inr ([], buflen)
      else bindE (check_string buffer) (\<lambda>(enc, bs).
        if enc \<noteq> ASCII_8BIT then rb_raise ArgumentError
        else if length bs < buflen then Inr (rb_str_modify_expand (bs, length bs) (buflen - length bs))
        else Inr (bs, length bs)))"

text \<open>What the memory of the buffer holds after ngtcp2 wrote a packet at its start.\<close>

definition overlay :: "bytes \<Rightarrow> bytes \<Rightarrow> bytes" where
  "overlay pkt buf = pkt @ drop (length pkt) buf"

definition account_selected :: "ngtcp2_consts \<Rightarrow> send_pick option \<Rightarrow> int \<Rightarrow> int \<Rightarrow> 'x client \<Rightarrow> 'x client" where
  "account_selected K sel n pdatalen w =
     (case sel of None \<Rightarrow> w
      | Some p \<Rightarrow> (case heap w (pk_ref p) of None \<Rightarrow> w
        | Some s \<Rightarrow> put_stream (pk_ref p) (stream_account K (pk_flags p) (pk_datav p) n pdatalen s) w))"

text \<open>The call of \<open>ngtcp2_conn_writev_stream\<close> with what the scan selected.\<close>

definition writev_call :: "'x ext \<Rightarrow> 'x client \<Rightarrow> writev_ret \<times> 'x" where
  "writev_call X w =
     (let K = consts_of X;
          (flags, sid, datav) = (case quic_client_pick_send_stream K w of
              None \<Rightarrow> (0, -1, None) | Some p \<Rightarrow> (pk_flags p, pk_sid p, pk_datav p));
          (ts, x1) = quic_now X (ext_st w)
      in x_writev_stream X flags sid datav (QUIC_WRITE_PKT_BUFLEN K) ts x1)"

text \<open>
  \<open>write_pkt\<close>: the result, the new content of the buffer object (\<open>None\<close> when the call raised
  before touching it) and the client. The value returned on success is that same buffer.
\<close>

definition quic_client_write_pkt :: "'x ext \<Rightarrow> call_args \<Rightarrow> 'x client \<Rightarrow>
    (exn + bytes option) \<times> bytes option \<times> 'x client" where
  "quic_client_write_pkt X args w =
     (let K = consts_of X in
      case bindE (rb_scan_args 0 1 False args) (\<lambda>(pos, opts). prepare_buffer K (pos ! 0)) of
        Inl e \<Rightarrow> (Inl e, None, w)
      | Inr (buf, capa) \<Rightarrow>
          let sel = quic_client_pick_send_stream K w;
              (ret, x') = writev_call X w;
              n = wv_n ret;
              w1 = run_events K (wv_events ret) (w\<lparr>ext_st := x'\<rparr>)
          in if n < 0 then (quic_raise_ngtcp2_error K (c_int n), Some [], w1)
             else
               let w2 = account_selected K sel n (wv_pdatalen ret) w1 in
               if n = 0 then (Inr None, Some [], w2)
               else let out = take (nat n) (overlay (wv_packet ret) buf) in (Inr (Some out), Some out, w2))"

section \<open>Reading packets\<close>

text \<open>
  \<open>rb_str_locktmp\<close> marks the packet String as locked and raises when it already is; the body
  runs under \<open>rb_ensure\<close>, so the unlock happens whether or not it raises. The lock bit of the
  packet is threaded next to the client.
\<close>

definition rb_ensure :: "('s \<Rightarrow> ('e + 'a) \<times> 's) \<Rightarrow> ('s \<Rightarrow> 's) \<Rightarrow> 's \<Rightarrow> ('e + 'a) \<times> 's" where
  "rb_ensure body ensure s = (case body s of (r, s') \<Rightarrow> (r, ensure s'))"

definition quic_read_pkt_body :: "'x ext \<Rightarrow> path \<Rightarrow> bytes \<Rightarrow> bool \<times> 'x client \<Rightarrow> (exn + unit) \<times> bool \<times> 'x client" where
  "quic_read_pkt_body X pth packet st =
     (let w = snd st;
          (ts, x1) = quic_now X (ext_st w);
          ((rv, evs), x2) = x_read_pkt X pth packet ts x1;
          w1 = run_events (consts_of X) evs (w\<lparr>ext_st := x2\<rparr>)
      in (if rv \<noteq> 0 then quic_raise_ngtcp2_error (consts_of X) rv else Inr (), fst st, w1))"

definition quic_read_pkt_unlock :: "bool \<times> 'x client \<Rightarrow> bool \<times> 'x client" where
  "quic_read_pkt_unlock st = (False, snd st)"

definition read_pkt_args :: "call_args \<Rightarrow> exn + (bytes \<times> path)" where
  "read_pkt_args args = bindE (rb_scan_args 1 0 True args) (\<lambda>(pos, opts).
     case opts of None \<Rightarrow> rb_raise ArgumentError
     | Some h \<Rightarrow>
         let lo = kw_aref h ''local_sockaddr''; re = kw_aref h ''remote_sockaddr'' in
         if NIL_P lo \<or> NIL_P re then rb_raise ArgumentError
         else bindE (quic_require_binary (pos ! 0)) (\<lambda>packet.
              bindE (quic_require_binary lo) (\<lambda>lo_bs.
              bindE (quic_require_binary re) (\<lambda>re_bs. Inr (packet, (lo_bs, re_bs))))))"

definition quic_client_read_pkt :: "'x ext \<Rightarrow> call_args \<Rightarrow> bool \<times> 'x client \<Rightarrow> (exn + unit) \<times> bool \<times> 'x client" where
  "quic_client_read_pkt X args st =
     (case read_pkt_args args of Inl e \<Rightarrow> (Inl e, st)
      | Inr (packet, pth) \<Rightarrow>
          if fst st then (rb_raise RuntimeError, st)
          else rb_ensure (quic_read_pkt_body X pth packet) quic_read_pkt_unlock (True, snd st))"

section \<open>State queries and timers\<close>

definition quic_client_handshake_completed_p :: "'x ext \<Rightarrow> 'x client \<Rightarrow> bool" where
  "quic_client_handshake_completed_p X w = x_handshake_completed X (ext_st w)"

definition quic_client_in_closing_period_p :: "'x ext \<Rightarrow> 'x client \<Rightarrow> bool" where
  "quic_client_in_closing_period_p X w = x_in_closing_period X (ext_st w)"

definition quic_client_in_draining_period_p :: "'x ext \<Rightarrow> 'x client \<Rightarrow> bool" where
  "quic_client_in_draining_period_p X w = x_in_draining_period X (ext_st w)"

text \<open>\<^verbatim>\<open>UINT64_MAX\<close> means that no timer is armed.\<close>

definition quic_client_expiry :: "'x ext \<Rightarrow> 'x client \<Rightarrow> int option" where
  "quic_client_expiry X w =
     (let t = x_get_expiry X (ext_st w) in if t = -1 then None else Some (uint t))"

definition quic_client_handle_expiry :: "'x ext \<Rightarrow> 'x client \<Rightarrow> (exn + unit) \<times> 'x client" where
  "quic_client_handle_expiry X w =
     (let (ts, x1) = quic_now X (ext_st w);
          ((rv, evs), x2) = x_handle_expiry X ts x1;
          w1 = run_events (consts_of X) evs (w\<lparr>ext_st := x2\<rparr>)
      in (if rv \<noteq> 0 then quic_raise_ngtcp2_error (consts_of X) rv else Inr (), w1))"

section \<open>Opening and accepting streams\<close>

definition open_stream :: "'x ext \<Rightarrow> ('x \<Rightarrow> (int \<times> uint64) \<times> 'x) \<Rightarrow> 'x client \<Rightarrow> (exn + nat) \<times> 'x client" where
  "open_stream X call w =
     (let ((rv, sid), x') = call (ext_st w); w1 = w\<lparr>ext_st := x'\<rparr>
      in if rv \<noteq> 0 then (quic_raise_ngtcp2_error (consts_of X) rv, w1)
         else let (r, w2) = register_stream sid w1 in (Inr r, w2))"

definition quic_client_open_bidi_stream :: "'x ext \<Rightarrow> 'x client \<Rightarrow> (exn + nat) \<times> 'x client" where
  "quic_client_open_bidi_stream X w = open_stream X (x_open_bidi_stream X) w"

definition quic_client_open_uni_stream :: "'x ext \<Rightarrow> 'x client \<Rightarrow> (exn + nat) \<times> 'x client" where
  "quic_client_open_uni_stream X w = open_stream X (x_open_uni_stream X) w"

definition accept_stream_nonblock :: "'x client \<Rightarrow> (exn + nat) \<times> 'x client" where
  "accept_stream_nonblock w =
     (case ary_shift (accept_queue w) of
        (None, q) \<Rightarrow> (rb_raise (QuicError QWaitReadable), w\<lparr>accept_queue := q\<rparr>)
      | (Some r, q) \<Rightarrow> (Inr r, w\<lparr>accept_queue := q\<rparr>))"

definition bind_sock :: "nat option \<Rightarrow> 'x client \<Rightarrow> 'x client" where
  "bind_sock so w = w\<lparr>sock := so\<rparr>"

section \<open>Stream methods on a client\<close>

text \<open>A method of the stream object \<open>r\<close>; the receiver must be a \<^verbatim>\<open>Quic::Stream\<close>.\<close>

definition on_stream :: "nat \<Rightarrow> (stream \<Rightarrow> exn + ('a \<times> stream)) \<Rightarrow> 'x client \<Rightarrow> (exn + 'a) \<times> 'x client" where
  "on_stream r f w = (case heap w r of None \<Rightarrow> (rb_raise TypeError, w)
     | Some s \<Rightarrow> (case f s of Inl e \<Rightarrow> (Inl e, w) | Inr (a, s') \<Rightarrow> (Inr a, put_stream r s' w)))"

definition stream_write_nonblock :: "'x ext \<Rightarrow> nat \<Rightarrow> call_args \<Rightarrow> 'x client \<Rightarrow> (exn + int) \<times> 'x client" where
  "stream_write_nonblock X r args w = on_stream r (quic_stream_write_nonblock_m X (ext_st w) args) w"

definition stream_enqueue :: "nat \<Rightarrow> rvalue \<Rightarrow> bool \<Rightarrow> 'x client \<Rightarrow> (exn + int) \<times> 'x client" where
  "stream_enqueue r data fin w = on_stream r (quic_stream_enqueue data fin) w"

definition stream_read_nonblock :: "nat \<Rightarrow> rvalue \<Rightarrow> 'x client \<Rightarrow> (exn + bytes) \<times> 'x client" where
  "stream_read_nonblock r len w = on_stream r (quic_stream_read_nonblock_m len) w"

definition stream_close_write :: "nat \<Rightarrow> 'x client \<Rightarrow> (exn + unit) \<times> 'x client" where
  "stream_close_write r w = on_stream r (\<lambda>s. bindE (quic_stream_close_write_m s) (\<lambda>s'. Inr ((), s'))) w"

text \<open>
  \<open>close_read\<close>: on a bare stream (\<open>@client\<close> nil) \<open>quic_client_conn\<close> raises TypeError.
\<close>

definition quic_stream_close_read_m :: "'x ext \<Rightarrow> nat \<Rightarrow> 'x client \<Rightarrow> (exn + unit) \<times> 'x client" where
  "quic_stream_close_read_m X r w =
     (case heap w r of None \<Rightarrow> (rb_raise TypeError, w)
      | Some s \<Rightarrow>
          if \<not> has_client s then (rb_raise TypeError, w)
          else
            let ((rv, evs), x') = x_shutdown_stream_read X (stream_id s) 0 (ext_st w);
                w1 = run_events (consts_of X) evs (w\<lparr>ext_st := x'\<rparr>)
            in (if rv \<noteq> 0 then quic_raise_ngtcp2_error (consts_of X) rv else Inr (), w1))"

definition quic_stream_close_m :: "'x ext \<Rightarrow> nat \<Rightarrow> 'x client \<Rightarrow> (exn + unit) \<times> 'x client" where
  "quic_stream_close_m X r w = bindW (stream_close_write r) (\<lambda>_. quic_stream_close_read_m X r) w"

definition reset_args :: "call_args \<Rightarrow> exn + uint64" where
  "reset_args args = bindE (rb_scan_args 0 1 False args) (\<lambda>(pos, opts).
     if NIL_P (pos ! 0) then Inr 0 else NUM2ULL (pos ! 0))"

definition quic_stream_reset_m :: "'x ext \<Rightarrow> nat \<Rightarrow> call_args \<Rightarrow> 'x client \<Rightarrow> (exn + unit) \<times> 'x client" where
  "quic_stream_reset_m X r args w =
     (case reset_args args of Inl e \<Rightarrow> (Inl e, w)
      | Inr error_code \<Rightarrow> (case heap w r of None \<Rightarrow> (rb_raise TypeError, w)
        | Some s \<Rightarrow>
            if reset s then (Inr (), w)
            else if \<not> has_client s then (Inr (), put_stream r (s\<lparr>reset := True\<rparr>) w)
            else
              let ((rv, evs), x') = x_shutdown_stream_write X (stream_id s) error_code (ext_st w);
                  w1 = run_events (consts_of X) evs (w\<lparr>ext_st := x'\<rparr>)
              in if rv \<noteq> 0 then (quic_raise_ngtcp2_error (consts_of X) rv, w1)
                 else (Inr (), case heap w1 r of None \<Rightarrow> w1
                         | Some s1 \<Rightarrow> put_stream r (s1\<lparr>reset := True\<rparr>) w1)))"

section \<open>Closing the connection\<close>

definition close_args :: "call_args \<Rightarrow> exn + (uint64 \<times> bytes)" where
  "close_args args = bindE (rb_scan_args 0 0 True args) (\<lambda>(pos, opts).
     case opts of None \<Rightarrow> Inr (0, [])
     | Some h \<Rightarrow>
         let error_code_v = kw_aref h ''error_code''; reason_v = kw_aref h ''reason'' in
         bindE (if NIL_P error_code_v then Inr 0 else NUM2ULL error_code_v) (\<lambda>error_code.
         bindE (if NIL_P reason_v then Inr [] else bindE (check_string reason_v) (\<lambda>(enc, bs). Inr bs)) (\<lambda>reason.
         Inr (error_code, reason))))"

definition quic_client_close_m :: "'x ext \<Rightarrow> call_args \<Rightarrow> 'x client \<Rightarrow> (exn + unit) \<times> 'x client" where
  "quic_client_close_m X args w =
     (let K = consts_of X in
      case close_args args of Inl e \<Rightarrow> (Inl e, w)
      | Inr (error_code, reason) \<Rightarrow>
          if x_in_closing_period X (ext_st w) \<or> x_in_draining_period X (ext_st w) then (Inr (), w)
          else (case sock w of None \<Rightarrow> (rb_raise (QuicError QNotBound), w)
          | Some so \<Rightarrow>
            let (ts, x1) = quic_now X (ext_st w);
                ((n, pkt, evs), x2) = x_write_connection_close X error_code
                   (if length reason > 0 then Some reason else None) (QUIC_WRITE_PKT_BUFLEN K) ts x1;
                w1 = run_events K evs (w\<lparr>ext_st := x2\<rparr>)
            in if n = ERR_INVALID_STATE K then (Inr (), w1)
               else if n < 0 then (quic_raise_ngtcp2_error K (c_int n), w1)
               else if n = 0 then (Inr (), w1)
               else (case x_sock_send X so (take (nat n) pkt) (ext_st w1) of
                       (Inl e, x3) \<Rightarrow> (Inl e, w1\<lparr>ext_st := x3\<rparr>)
                     | (Inr u, x3) \<Rightarrow> (Inr (), w1\<lparr>ext_st := x3\<rparr>))))"

end
