(* ===== verification/Client_Invariants.thy ===== *)
theory Client_Invariants
  imports Client_Ops
begin

unbundle bit_operations_syntax

text \<open>
  The client as a state machine: \<open>client_step\<close> has one rule per method that changes the state
  (the composite methods are sequences of these), with what the callers and ngtcp2 guarantee as
  premises. The invariant \<open>client_wf\<close> and the preorder \<open>client_le\<close> (what a client never takes
  back) hold along every run, through the interfaces \<open>transition_invariant\<close> and
  \<open>step_preorder\<close>.
\<close>

section \<open>Acknowledgements do not change what is offered\<close>

lemma find_chunk_shift: "find_chunk p (j + k) cs = map_option (\<lambda>(i, off). (i + k, off)) (find_chunk p j cs)"
proof (induction p j cs rule: find_chunk.induct)
  case (2 p j c cs)
  then show ?case by (cases "p < of_nat (length c)") simp_all
qed simp

lemma find_chunk_skip:
  "nbytes (pre @ cs) < 2 ^ 64 \<Longrightarrow> nbytes pre \<le> unat p \<Longrightarrow>
   find_chunk p j (pre @ cs) = find_chunk (p - of_nat (nbytes pre)) (j + length pre) cs"
proof (induction pre arbitrary: p j)
  case (Cons c pre)
  have lt: "\<not> p < of_nat (length c)" and u: "unat (p - of_nat (length c)) = unat p - length c"
    using Cons.prems by (simp_all add: len_bound not_less)
  with Cons show ?case by (simp add: diff_diff_eq)
qed simp

lemma stream_pick_acked:
  assumes wf: "stream_wf s" and ack: "unat (acked_offset s) + unat d \<le> unat (sent_offset s)"
  shows "stream_pick K (stream_acked d s) = stream_pick K s"
proof (rule stream_acked_spec [OF wf ack])
  fix dropped
  let ?s = "stream_acked d s" and ?p = "sent_offset s - pending_shifted s"
  assume pc: "pending_chunks s = dropped @ pending_chunks ?s"
    and sh: "unat (pending_shifted ?s) = unat (pending_shifted s) + nbytes dropped"
    and le: "unat (acked_offset ?s) = unat (acked_offset s) + unat d"
      "unat (pending_shifted ?s) \<le> unat (acked_offset ?s)"
  have nb: "nbytes (dropped @ pending_chunks ?s) < 2 ^ 64"
    using wf pc by (simp add: stream_wf_def length_concat)
  have "pending_shifted ?s = pending_shifted s + of_nat (nbytes dropped)"
    using sh nb unat_lt64 [of "pending_shifted ?s"]
    by (intro word_unat_eq_iff [THEN iffD2]) (simp add: len_bound)
  then have pos: "sent_offset ?s - pending_shifted ?s = ?p - of_nat (nbytes dropped)" by simp
  have "nbytes dropped \<le> unat ?p" using unat_position [OF wf] sh le ack by simp
  from find_chunk_skip [OF nb this, of 0]
  have "find_chunk ?p 0 (pending_chunks s) =
      map_option (\<lambda>(i, off). (i + length dropped, off))
        (find_chunk (sent_offset ?s - pending_shifted ?s) 0 (pending_chunks ?s))"
    by (simp only: pc [symmetric] pos [symmetric] find_chunk_shift)
  with pc show ?thesis
    by (auto simp: stream_pick_def Let_def nth_append split: option.splits)
qed

section \<open>What never changes and what only grows\<close>

text \<open>\<open>stream_le s s'\<close>: identity is fixed and flags are never cleared.\<close>

definition stream_le :: "stream \<Rightarrow> stream \<Rightarrow> bool" where
  "stream_le s s' \<longleftrightarrow> stream_id s' = stream_id s \<and> iv_id s' = iv_id s \<and> has_client s' = has_client s \<and>
     (fin_received s \<longrightarrow> fin_received s') \<and> (fin_sent s \<longrightarrow> fin_sent s') \<and>
     (fin_flushed s \<longrightarrow> fin_flushed s') \<and> (reset s \<longrightarrow> reset s') \<and> (closed s \<longrightarrow> closed s') \<and>
     (accept_queued s \<longrightarrow> accept_queued s') \<and>
     (close_has_app_error_code s \<longrightarrow> close_has_app_error_code s')"

lemma stream_le_refl: "stream_le s s"
  by (simp add: stream_le_def)

lemma stream_le_trans: "stream_le s t \<Longrightarrow> stream_le t u \<Longrightarrow> stream_le s u"
  by (simp add: stream_le_def)

text \<open>
  \<open>client_le w w'\<close>: objects are never lost, each evolves by \<open>stream_le\<close>, references are never
  reused, and a reference that appears in the accept queue was either there before or had
  never been queued.
\<close>

definition client_le :: "'x client \<Rightarrow> 'x client \<Rightarrow> bool" where
  "client_le w w' \<longleftrightarrow> next_ref w \<le> next_ref w' \<and>
     (\<forall>r s. heap w r = Some s \<longrightarrow> (\<exists>s'. heap w' r = Some s' \<and> stream_le s s')) \<and>
     (\<forall>r \<in> set (accept_queue w'). r \<in> set (accept_queue w) \<or>
        (\<forall>s. heap w r = Some s \<longrightarrow> \<not> accept_queued s))"

lemma client_le_refl: "client_le w w"
  by (auto simp: client_le_def stream_le_refl)

lemma client_le_trans:
  assumes "client_le u v" "client_le v w"
  shows "client_le u w"
proof -
  have o: "\<exists>s'. heap w r = Some s' \<and> stream_le s s'" if "heap u r = Some s" for r s
    using that assms stream_le_trans unfolding client_le_def by metis
  have q: "r \<in> set (accept_queue u) \<or> (\<forall>s. heap u r = Some s \<longrightarrow> \<not> accept_queued s)"
    if "r \<in> set (accept_queue w)" for r
  proof (cases "r \<in> set (accept_queue v)")
    case True
    with assms(1) show ?thesis by (auto simp: client_le_def)
  next
    case False
    with that assms(2) have "\<forall>s. heap v r = Some s \<longrightarrow> \<not> accept_queued s" by (auto simp: client_le_def)
    with assms(1) show ?thesis unfolding client_le_def stream_le_def by metis
  qed
  have "next_ref u \<le> next_ref w" using assms by (simp add: client_le_def)
  with o q show ?thesis by (simp add: client_le_def)
qed

lemma client_le_put:
  "heap w r = Some s \<Longrightarrow> stream_le s s' \<Longrightarrow> client_le w (put_stream r s' w)"
  by (auto simp: client_le_def put_stream_def stream_le_refl)

lemma client_le_register: "client_wf w \<Longrightarrow> register_stream sid w = (r, w') \<Longrightarrow> client_le w w'"
  using client_wf_fresh [of w] by (auto simp: client_le_def register_stream_def stream_le_refl Let_def)

lemma client_le_ext [simp]: "client_le w (w'\<lparr>ext_st := x\<rparr>) = client_le w w'"
  "client_le (w\<lparr>ext_st := x\<rparr>) w' = client_le w w'"
  by (simp_all add: client_le_def)

lemma client_le_run_event:
  assumes wf: "client_wf w"
  shows "client_le w (run_event K e w)"
proof (cases e)
  case (Stream_open sid)
  then show ?thesis
    using client_le_register [OF wf, of sid]
    by (cases "register_stream sid w") (auto simp: quic_stream_open_cb_def client_le_refl)
next
  case (Recv_stream_data flags sid off data)
  then show ?thesis
    by (auto simp: quic_recv_stream_data_cb_def client_le_refl client_le_def put_stream_def
        ary_push_def stream_le_def split: option.splits)
next
  case (Acked_stream_data_offset sid off d)
  then show ?thesis
    by (auto simp: quic_acked_stream_data_offset_cb_def client_le_refl stream_le_def stream_acked_def
        Let_def split: option.splits prod.splits intro!: client_le_put)
next
  case (Stream_close flags sid code)
  then show ?thesis
    by (auto simp: quic_stream_close_cb_def client_le_refl client_le_def put_stream_def
        stream_le_def stream_closed_def Let_def split: option.splits)
next
  case (Stream_reset sid sz code)
  then show ?thesis
    by (auto simp: quic_stream_reset_cb_def client_le_refl stream_le_def
        split: option.splits intro!: client_le_put)
qed

lemma client_le_run_events:
  "client_wf w \<Longrightarrow> events_ok K w es \<Longrightarrow> client_le w (run_events K es w)"
proof (induction K es w rule: run_events.induct)
  case (2 K e es w)
  then show ?case
    using client_le_run_event [of w K e] client_wf_run_event [of w e K] client_le_trans by fastforce
qed (simp add: client_le_refl)

text \<open>Events also leave every stream's offer to ngtcp2 as it was.\<close>

definition same_offer :: "ngtcp2_consts \<Rightarrow> stream \<Rightarrow> stream \<Rightarrow> bool" where
  "same_offer K s s' \<longleftrightarrow> stream_pick K s' = stream_pick K s"

lemma stream_pick_cong:
  "fin_flushed s' = fin_flushed s \<Longrightarrow> fin_sent s' = fin_sent s \<Longrightarrow> sent_offset s' = sent_offset s \<Longrightarrow>
   pending_shifted s' = pending_shifted s \<Longrightarrow> pending_chunks s' = pending_chunks s \<Longrightarrow>
   stream_pick K s' = stream_pick K s"
  by (simp only: stream_pick_def)

lemma stream_pick_frame:
  "stream_pick K (stream_recv K fl d s) = stream_pick K s"
  "stream_pick K (stream_closed K fl c s) = stream_pick K s"
  "stream_pick K (s\<lparr>accept_queued := b\<rparr>) = stream_pick K s"
  "stream_pick K (s\<lparr>reset := b, close_app_error_code := c, close_has_app_error_code := b'\<rparr>) = stream_pick K s"
  by (rule stream_pick_cong; simp)+

lemma same_offer_run_event:
  assumes wf: "client_wf w" and ok: "event_ok w e" and s: "heap w r = Some s"
  shows "\<exists>s'. heap (run_event K e w) r = Some s' \<and> same_offer K s s'"
proof (cases e)
  case (Stream_open sid)
  with s client_wf_obj [OF wf s] show ?thesis
    by (auto simp: quic_stream_open_cb_def register_stream_def same_offer_def obj_wf_def Let_def)
next
  case (Acked_stream_data_offset sid off d)
  with s ok client_wf_obj [OF wf s] show ?thesis
    by (auto simp: quic_acked_stream_data_offset_cb_def put_stream_def same_offer_def obj_wf_def
        stream_pick_acked split: option.splits)
next
  case (Recv_stream_data flags sid off data)
  with s show ?thesis
    by (auto simp: quic_recv_stream_data_cb_def put_stream_def same_offer_def stream_pick_frame
        split: option.splits)
next
  case (Stream_close flags sid code)
  with s show ?thesis
    by (auto simp: quic_stream_close_cb_def put_stream_def same_offer_def stream_pick_frame
        split: option.splits)
next
  case (Stream_reset sid sz code)
  with s show ?thesis
    by (auto simp: quic_stream_reset_cb_def put_stream_def same_offer_def stream_pick_frame
        split: option.splits)
qed

lemma same_offer_run_events:
  "client_wf w \<Longrightarrow> events_ok K w es \<Longrightarrow> heap w r = Some s \<Longrightarrow>
   \<exists>s'. heap (run_events K es w) r = Some s' \<and> same_offer K s s'"
proof (induction K es w arbitrary: s rule: run_events.induct)
  case (2 K e es w)
  then obtain s1 where "heap (run_event K e w) r = Some s1" "same_offer K s s1"
    using same_offer_run_event by fastforce
  with 2 client_wf_run_event [of w e K] show ?case by (fastforce simp: same_offer_def)
qed (simp add: same_offer_def)

section \<open>Every method advances the client\<close>

definition advances :: "'x client \<Rightarrow> 'x client \<Rightarrow> bool" where
  "advances w w' \<longleftrightarrow> client_wf w' \<and> client_le w w'"

lemma advances_refl: "client_wf w \<Longrightarrow> advances w w"
  by (simp add: advances_def client_le_refl)

lemma advances_trans: "advances u v \<Longrightarrow> advances v w \<Longrightarrow> advances u w"
  by (auto simp: advances_def intro: client_le_trans)

lemma advances_ext [simp]: "advances w (w'\<lparr>ext_st := x\<rparr>) = advances w w'"
  by (simp add: advances_def)

lemma advances_events:
  "client_wf w \<Longrightarrow> events_ok K (w\<lparr>ext_st := x\<rparr>) es \<Longrightarrow> advances w (run_events K es (w\<lparr>ext_st := x\<rparr>))"
  using client_wf_run_events [of "w\<lparr>ext_st := x\<rparr>" K es] client_le_run_events [of "w\<lparr>ext_st := x\<rparr>" K es]
  by (simp add: advances_def)

lemma advances_put:
  assumes "client_wf w" "heap w r = Some s" "stream_wf s'" "stream_le s s'"
    "closed s' = closed s" "accept_queued s' = accept_queued s"
  shows "advances w (put_stream r s' w)"
  using assms client_wf_put [of w r s s'] client_le_put [of w r s s'] client_wf_obj [of w r s]
  by (simp add: advances_def obj_wf_def stream_le_def)

lemma advances_register:
  "client_wf w \<Longrightarrow> register_stream sid w = (r, w') \<Longrightarrow> advances w w'"
  by (simp add: advances_def client_wf_register client_le_register)

text \<open>A method of one stream advances the client when it keeps the stream well formed.\<close>

lemma advances_on_stream:
  assumes "client_wf w"
    and "\<And>s a s'. heap w r = Some s \<Longrightarrow> stream_wf s \<Longrightarrow> f s = Inr (a, s') \<Longrightarrow>
      stream_wf s' \<and> stream_le s s' \<and> closed s' = closed s \<and> accept_queued s' = accept_queued s"
  shows "advances w (snd (on_stream r f w))"
proof (cases "heap w r")
  case (Some s)
  then have wf: "stream_wf s" using client_wf_obj [OF assms(1)] by (simp add: obj_wf_def)
  show ?thesis
  proof (cases "f s")
    case (Inr p)
    then obtain a s' where f: "f s = Inr (a, s')" by (cases p) auto
    from assms(2) [OF Some wf f] Some f assms(1) show ?thesis
      by (simp add: on_stream_def advances_put)
  qed (simp add: on_stream_def Some assms(1) advances_refl)
qed (simp add: on_stream_def assms(1) advances_refl)

definition write_room :: "nat \<Rightarrow> nat \<Rightarrow> 'x client \<Rightarrow> bool" where
  "write_room r n w \<longleftrightarrow> (\<forall>s. heap w r = Some s \<longrightarrow>
     unat (pending_shifted s) + length (retained s) + n < 2 ^ 64)"

lemma advances_enqueue:
  assumes "client_wf w" "write_room r (length bs) w"
  shows "advances w (snd (stream_enqueue r (VStr enc bs) fin w))"
  unfolding stream_enqueue_def
proof (rule advances_on_stream [OF assms(1)])
  fix s a s'
  assume "heap w r = Some s" "stream_wf s" "quic_stream_enqueue (VStr enc bs) fin s = Inr (a, s')"
  with assms(2) stream_wf_enqueue [of enc bs fin s a s']
  show "stream_wf s' \<and> stream_le s s' \<and> closed s' = closed s \<and> accept_queued s' = accept_queued s"
    by (auto simp: write_room_def enqueue_Inr_iff stream_le_def)
qed

text \<open>The number of data bytes a write call carries.\<close>

definition data_len :: "call_args \<Rightarrow> nat" where
  "data_len args = (case quic_stream_fin_kwarg args of Inr (VStr enc bs, fin) \<Rightarrow> length bs | _ \<Rightarrow> 0)"

lemma write_nonblock_enqueues:
  assumes "quic_stream_write_nonblock_m X x args s = Inr (n, s')"
  shows "\<exists>enc bs fin. quic_stream_enqueue (VStr enc bs) fin s = Inr (n, s') \<and> length bs \<le> data_len args"
proof -
  obtain data fin where k: "quic_stream_fin_kwarg args = Inr (data, fin)"
    using assms by (auto simp: quic_stream_write_nonblock_m_def res_iff)
  obtain enc bs where d: "data = VStr enc bs"
    using assms k by (cases data) (auto simp: quic_stream_write_nonblock_m_def enqueue_Inr_iff split: if_splits)
  have "\<exists>enc' bs' fin'. quic_stream_enqueue (VStr enc' bs') fin' s = Inr (n, s') \<and> length bs' \<le> length bs"
    using assms k d
    by (auto simp: quic_stream_write_nonblock_m_def Let_def simp del: quic_stream_enqueue_def
        split: if_splits) (metis length_take min.cobounded1 order_refl)+
  then show ?thesis by (simp add: data_len_def k d)
qed

lemma advances_write_nonblock:
  assumes "client_wf w" "write_room r (data_len args) w"
  shows "advances w (snd (stream_write_nonblock X r args w))"
  unfolding stream_write_nonblock_def
proof (rule advances_on_stream [OF assms(1)])
  fix s a s'
  assume s: "heap w r = Some s" "stream_wf s" "quic_stream_write_nonblock_m X (ext_st w) args s = Inr (a, s')"
  then obtain enc bs fin where e: "quic_stream_enqueue (VStr enc bs) fin s = Inr (a, s')" "length bs \<le> data_len args"
    using write_nonblock_enqueues [OF s(3)] by blast
  with s assms(2) have "unat (pending_shifted s) + length (retained s) + length bs < 2 ^ 64"
    by (fastforce simp: write_room_def)
  with e s(2) stream_wf_enqueue [of enc bs fin s a s']
  show "stream_wf s' \<and> stream_le s s' \<and> closed s' = closed s \<and> accept_queued s' = accept_queued s"
    by (auto simp: enqueue_Inr_iff stream_le_def)
qed

lemma advances_close_write:
  assumes "client_wf w"
  shows "advances w (snd (stream_close_write r w))"
  unfolding stream_close_write_def
proof (rule advances_on_stream [OF assms])
  fix s a s'
  assume "heap w r = Some s" "stream_wf s" "bindE (quic_stream_close_write_m s) (\<lambda>s'. Inr ((), s')) = Inr (a, s')"
  then show "stream_wf s' \<and> stream_le s s' \<and> closed s' = closed s \<and> accept_queued s' = accept_queued s"
    by (auto simp: quic_stream_close_write_m_def res_iff enqueue_Inr_iff stream_le_def stream_wf_def
        split: if_splits)
qed

lemma advances_read_nonblock:
  assumes "client_wf w"
  shows "advances w (snd (stream_read_nonblock r v w))"
  unfolding stream_read_nonblock_def
proof (rule advances_on_stream [OF assms])
  fix s a s'
  assume "heap w r = Some s" "stream_wf s" "quic_stream_read_nonblock_m v s = Inr (a, s')"
  then show "stream_wf s' \<and> stream_le s s' \<and> closed s' = closed s \<and> accept_queued s' = accept_queued s"
    by (auto dest!: read_nonblock_state simp: stream_le_def stream_wf_def)
qed

lemma pick_loop_Some:
  "pick_loop K hp rs = Some p \<Longrightarrow>
   \<exists>s. pk_ref p \<in> set rs \<and> hp (pk_ref p) = Some s \<and> pk_sid p = stream_id s \<and>
     stream_pick K s = Some (pk_datav p, pk_flags p)"
  by (induction K hp rs rule: pick_loop.induct) (fastforce split: option.splits)+

lemma advances_account:
  assumes wf: "client_wf w" and ok: "events_ok K (w\<lparr>ext_st := x\<rparr>) es"
    and sel: "quic_client_pick_send_stream K w = Some p"
    and pd: "pd \<le> (case pk_datav p of None \<Rightarrow> 0 | Some d \<Rightarrow> int (length d))"
  shows "advances w (account_selected K (Some p) n pd (run_events K es (w\<lparr>ext_st := x\<rparr>)))"
proof -
  let ?w = "run_events K es (w\<lparr>ext_st := x\<rparr>)"
  obtain s where s: "heap w (pk_ref p) = Some s" "stream_pick K s = Some (pk_datav p, pk_flags p)"
    using pick_loop_Some sel unfolding quic_client_pick_send_stream_def by blast
  then obtain s1 where s1: "heap ?w (pk_ref p) = Some s1" "stream_pick K s1 = Some (pk_datav p, pk_flags p)"
    using same_offer_run_events [of "w\<lparr>ext_st := x\<rparr>" K es "pk_ref p" s] wf ok by (auto simp: same_offer_def)
  have a: "advances w ?w" using wf ok by (rule advances_events)
  then have wf1: "client_wf ?w" by (simp add: advances_def)
  then have swf: "stream_wf s1" using s1 client_wf_obj by (fastforce simp: obj_wf_def)
  have "stream_le s1 (stream_account K (pk_flags p) (pk_datav p) n pd s1)"
    by (auto simp: stream_le_def stream_account_def Let_def)
  with swf have "advances ?w (put_stream (pk_ref p) (stream_account K (pk_flags p) (pk_datav p) n pd s1) ?w)"
    using stream_wf_account [OF swf s1(2) pd] by (intro advances_put [OF wf1 s1(1)]) simp_all
  with a s1 show ?thesis by (simp add: account_selected_def advances_trans)
qed

lemma advances_write_pkt:
  assumes wf: "client_wf w" and X: "writev_contract X" and call: "writev_call X w = (ret, x')"
    and ok: "events_ok (consts_of X) (w\<lparr>ext_st := x'\<rparr>) (wv_events ret)"
  shows "advances w (snd (snd (quic_client_write_pkt X args w)))"
proof -
  let ?K = "consts_of X"
  have ev: "advances w (run_events ?K (wv_events ret) (w\<lparr>ext_st := x'\<rparr>))"
    using wf ok by (rule advances_events)
  have acc: "advances w (account_selected ?K (quic_client_pick_send_stream ?K w) (wv_n ret) (wv_pdatalen ret)
      (run_events ?K (wv_events ret) (w\<lparr>ext_st := x'\<rparr>)))"
  proof (cases "quic_client_pick_send_stream ?K w")
    case (Some p)
    have "wv_pdatalen ret \<le> (case pk_datav p of None \<Rightarrow> 0 | Some d \<Rightarrow> int (length d))"
      using call Some
      by (auto simp: writev_call_def Let_def split: prod.splits dest: writev_contractD(1) [OF X])
    with Some show ?thesis using advances_account [OF wf ok] by simp
  qed (simp add: account_selected_def ev)
  show ?thesis
    using ev acc call wf
    by (auto simp: quic_client_write_pkt_def Let_def advances_refl split: sum.splits)
qed

lemma advances_read_pkt:
  assumes wf: "client_wf w"
    and ok: "\<And>packet pth ts x1 rv evs x2. read_pkt_args args = Inr (packet, pth) \<Longrightarrow>
      quic_now X (ext_st w) = (ts, x1) \<Longrightarrow> x_read_pkt X pth packet ts x1 = ((rv, evs), x2) \<Longrightarrow>
      events_ok (consts_of X) (w\<lparr>ext_st := x2\<rparr>) evs"
  shows "advances w (snd (snd (quic_client_read_pkt X args (lk, w))))"
proof (cases "read_pkt_args args")
  case (Inr a)
  then obtain packet pth where a: "read_pkt_args args = Inr (packet, pth)" by (cases a) auto
  obtain ts x1 where t: "quic_now X (ext_st w) = (ts, x1)" by (cases "quic_now X (ext_st w)")
  obtain rv evs x2 where c: "x_read_pkt X pth packet ts x1 = ((rv, evs), x2)"
    by (metis prod.collapse)
  from ok [OF a t c] wf have "advances w (run_events (consts_of X) evs (w\<lparr>ext_st := x2\<rparr>))"
    by (intro advances_events)
  with a t c wf show ?thesis
    by (simp add: quic_client_read_pkt_def rb_ensure_def quic_read_pkt_body_def quic_read_pkt_unlock_def advances_refl)
qed (simp add: quic_client_read_pkt_def wf advances_refl)

lemma advances_handle_expiry:
  assumes wf: "client_wf w" and c: "quic_now X (ext_st w) = (ts, x1)" "x_handle_expiry X ts x1 = ((rv, evs), x2)"
    and ok: "events_ok (consts_of X) (w\<lparr>ext_st := x2\<rparr>) evs"
  shows "advances w (snd (quic_client_handle_expiry X w))"
  using advances_events [OF wf ok] by (simp add: quic_client_handle_expiry_def c)

lemma advances_open_stream:
  assumes "client_wf w"
  shows "advances w (snd (open_stream X call w))"
proof -
  obtain rv sid x' where c: "call (ext_st w) = ((rv, sid), x')" by (metis prod.collapse)
  obtain r w2 where g: "register_stream sid (w\<lparr>ext_st := x'\<rparr>) = (r, w2)"
    by (cases "register_stream sid (w\<lparr>ext_st := x'\<rparr>)")
  have "advances (w\<lparr>ext_st := x'\<rparr>) w2" using assms g by (intro advances_register) simp_all
  then have "advances w w2" by (simp add: advances_def)
  with assms c g show ?thesis by (simp add: open_stream_def advances_refl Let_def)
qed

lemma advances_accept:
  assumes "client_wf w"
  shows "advances w (snd (accept_stream_nonblock w))"
proof (cases "accept_queue w")
  case (Cons r q)
  with assms show ?thesis
    by (auto simp: accept_stream_nonblock_def advances_def client_wf_def queue_wf_def registry_wf_def
        obj_wf_def client_le_def stream_le_refl)
qed (use assms in \<open>auto simp: accept_stream_nonblock_def advances_def client_wf_def queue_wf_def
       registry_wf_def obj_wf_def client_le_def stream_le_refl\<close>)

lemma advances_close_read:
  assumes wf: "client_wf w"
    and ok: "\<And>s rv evs x2. heap w r = Some s \<Longrightarrow>
      x_shutdown_stream_read X (stream_id s) 0 (ext_st w) = ((rv, evs), x2) \<Longrightarrow>
      events_ok (consts_of X) (w\<lparr>ext_st := x2\<rparr>) evs"
  shows "advances w (snd (quic_stream_close_read_m X r w))"
proof (cases "heap w r")
  case (Some s)
  obtain rv evs x2 where c: "x_shutdown_stream_read X (stream_id s) 0 (ext_st w) = ((rv, evs), x2)"
    by (metis prod.collapse)
  from advances_events [OF wf ok [OF Some c]] Some c wf show ?thesis
    by (simp add: quic_stream_close_read_m_def advances_refl)
qed (simp add: quic_stream_close_read_m_def wf advances_refl)

lemma advances_reset:
  assumes wf: "client_wf w"
    and ok: "\<And>s code rv evs x2. heap w r = Some s \<Longrightarrow>
      x_shutdown_stream_write X (stream_id s) code (ext_st w) = ((rv, evs), x2) \<Longrightarrow>
      events_ok (consts_of X) (w\<lparr>ext_st := x2\<rparr>) evs"
  shows "advances w (snd (quic_stream_reset_m X r args w))"
proof (cases "heap w r")
  case None
  with wf show ?thesis by (simp add: quic_stream_reset_m_def advances_refl split: sum.splits)
next
  case (Some s)
  have set_reset: "advances v (case heap v r of None \<Rightarrow> v | Some s1 \<Rightarrow> put_stream r (s1\<lparr>reset := True\<rparr>) v)"
    if "client_wf v" for v :: "'a client"
    using that client_wf_obj [OF that]
    by (auto simp: advances_refl stream_le_def stream_wf_def obj_wf_def split: option.splits intro!: advances_put)
  have "advances w (snd (quic_stream_reset_m X r args w))" if a: "reset_args args = Inr code" for code
  proof -
    obtain rv evs x2 where c: "x_shutdown_stream_write X (stream_id s) code (ext_st w) = ((rv, evs), x2)"
      by (metis prod.collapse)
    let ?w1 = "run_events (consts_of X) evs (w\<lparr>ext_st := x2\<rparr>)"
    have "advances w ?w1" using advances_events [OF wf ok [OF Some c]] .
    with set_reset [of ?w1] set_reset [OF wf] Some a c wf show ?thesis
      by (auto simp: quic_stream_reset_m_def advances_refl advances_def client_le_refl Let_def
          intro: client_le_trans)
  qed
  with wf show ?thesis by (cases "reset_args args") (simp_all add: quic_stream_reset_m_def advances_refl)
qed

lemma advances_close:
  assumes wf: "client_wf w"
    and ok: "\<And>code reason ts x1 n pkt evs x2. quic_now X (ext_st w) = (ts, x1) \<Longrightarrow>
      x_write_connection_close X code reason (QUIC_WRITE_PKT_BUFLEN (consts_of X)) ts x1 = ((n, pkt, evs), x2) \<Longrightarrow>
      events_ok (consts_of X) (w\<lparr>ext_st := x2\<rparr>) evs"
  shows "advances w (snd (quic_client_close_m X args w))"
proof -
  have "advances w (run_events (consts_of X) evs (w\<lparr>ext_st := x2\<rparr>))"
    if "quic_now X (ext_st w) = (ts, x1)"
      "x_write_connection_close X code reason (QUIC_WRITE_PKT_BUFLEN (consts_of X)) ts x1 = ((n, pkt, evs), x2)"
    for code reason ts x1 n pkt evs x2
    using advances_events [OF wf ok [OF that]] .
  with wf show ?thesis
    by (auto simp: quic_client_close_m_def Let_def advances_refl split: sum.splits prod.splits option.splits)
qed

section \<open>The state machine\<close>

text \<open>
  The client \<open>quic_client_open\<close> returns: no streams, an empty queue, no socket.
\<close>

definition client_init :: "'x client \<Rightarrow> bool" where
  "client_init w \<longleftrightarrow> heap w = Map.empty \<and> next_ref w = 0 \<and> streams w = [] \<and> accept_queue w = [] \<and> sock w = None \<and>
     iv_pump_local_sockaddr w = None \<and> iv_pump_remote_sockaddr w = None"

text \<open>
  One rule per method. Where ngtcp2 is called, the premise says that the callbacks of that call
  are admissible (\<open>events_ok\<close>); where bytes are queued, that the stream stays below \<open>2^64\<close> bytes.
\<close>

inductive client_step :: "'x ext \<Rightarrow> 'x client \<Rightarrow> 'x client \<Rightarrow> bool" for X where
  st_write_pkt: "writev_call X w = (ret, x') \<Longrightarrow>
    events_ok (consts_of X) (w\<lparr>ext_st := x'\<rparr>) (wv_events ret) \<Longrightarrow>
    client_step X w (snd (snd (quic_client_write_pkt X args w)))"
| st_read_pkt: "(\<And>packet pth ts x1 rv evs x2. read_pkt_args args = Inr (packet, pth) \<Longrightarrow>
      quic_now X (ext_st w) = (ts, x1) \<Longrightarrow> x_read_pkt X pth packet ts x1 = ((rv, evs), x2) \<Longrightarrow>
      events_ok (consts_of X) (w\<lparr>ext_st := x2\<rparr>) evs) \<Longrightarrow>
    client_step X w (snd (snd (quic_client_read_pkt X args (lk, w))))"
| st_handle_expiry: "quic_now X (ext_st w) = (ts, x1) \<Longrightarrow> x_handle_expiry X ts x1 = ((rv, evs), x2) \<Longrightarrow>
    events_ok (consts_of X) (w\<lparr>ext_st := x2\<rparr>) evs \<Longrightarrow>
    client_step X w (snd (quic_client_handle_expiry X w))"
| st_open_bidi: "client_step X w (snd (quic_client_open_bidi_stream X w))"
| st_open_uni: "client_step X w (snd (quic_client_open_uni_stream X w))"
| st_accept: "client_step X w (snd (accept_stream_nonblock w))"
| st_bind: "client_step X w (bind_sock so w)"
| st_enqueue: "write_room r (length bs) w \<Longrightarrow>
    client_step X w (snd (stream_enqueue r (VStr enc bs) fin w))"
| st_write_nonblock: "write_room r (data_len args) w \<Longrightarrow>
    client_step X w (snd (stream_write_nonblock X r args w))"
| st_close_write: "client_step X w (snd (stream_close_write r w))"
| st_read_nonblock: "client_step X w (snd (stream_read_nonblock r v w))"
| st_close_read: "(\<And>s rv evs x2. heap w r = Some s \<Longrightarrow>
      x_shutdown_stream_read X (stream_id s) 0 (ext_st w) = ((rv, evs), x2) \<Longrightarrow>
      events_ok (consts_of X) (w\<lparr>ext_st := x2\<rparr>) evs) \<Longrightarrow>
    client_step X w (snd (quic_stream_close_read_m X r w))"
| st_reset: "(\<And>s code rv evs x2. heap w r = Some s \<Longrightarrow>
      x_shutdown_stream_write X (stream_id s) code (ext_st w) = ((rv, evs), x2) \<Longrightarrow>
      events_ok (consts_of X) (w\<lparr>ext_st := x2\<rparr>) evs) \<Longrightarrow>
    client_step X w (snd (quic_stream_reset_m X r args w))"
| st_close: "(\<And>code reason ts x1 n pkt evs x2. quic_now X (ext_st w) = (ts, x1) \<Longrightarrow>
      x_write_connection_close X code reason (QUIC_WRITE_PKT_BUFLEN (consts_of X)) ts x1 = ((n, pkt, evs), x2) \<Longrightarrow>
      events_ok (consts_of X) (w\<lparr>ext_st := x2\<rparr>) evs) \<Longrightarrow>
    client_step X w (snd (quic_client_close_m X args w))"

lemma client_step_advances:
  "client_step X w w' \<Longrightarrow> writev_contract X \<Longrightarrow> client_wf w \<Longrightarrow> advances w w'"
proof (induction rule: client_step.induct)
  case (st_bind w so)
  then show ?case
    by (auto simp: bind_sock_def advances_def client_le_def stream_le_refl)
qed (simp_all add: advances_write_pkt advances_read_pkt advances_handle_expiry advances_accept
    advances_enqueue advances_write_nonblock advances_close_write advances_read_nonblock
    advances_close_read advances_reset advances_close quic_client_open_bidi_stream_def
    quic_client_open_uni_stream_def advances_open_stream)

interpretation cl: transition_invariant client_init "client_step X" "\<lambda>w. writev_contract X \<longrightarrow> client_wf w" for X
proof unfold_locales
  fix w w' :: "'a client"
  show "writev_contract X \<longrightarrow> client_wf w" if "client_init w"
    using that by (simp add: client_init_def client_wf_def registry_wf_def queue_wf_def)
  show "writev_contract X \<longrightarrow> client_wf w'" if "client_step X w w'" "writev_contract X \<longrightarrow> client_wf w"
    using that client_step_advances [of X w w'] by (auto simp: advances_def)
qed

text \<open>
  Monotonicity needs the invariant of the state a step starts from, so the preorder relates
  clients under that condition.
\<close>

definition monotone_from :: "'x ext \<Rightarrow> 'x client \<Rightarrow> 'x client \<Rightarrow> bool" where
  "monotone_from X w w' \<longleftrightarrow> (writev_contract X \<longrightarrow> client_wf w \<longrightarrow> advances w w')"

interpretation mono: step_preorder "client_step X" "monotone_from X" for X
proof unfold_locales
  fix u v w :: "'a client"
  show "monotone_from X u u" by (simp add: monotone_from_def advances_refl)
  show "monotone_from X u w" if "monotone_from X u v" "monotone_from X v w"
    using that by (auto simp: monotone_from_def advances_def intro: client_le_trans)
  show "monotone_from X u v" if "client_step X u v"
    using client_step_advances [OF that] by (auto simp: monotone_from_def)
qed

end
