(* ===== verification/Client_Open.thy ===== *)
theory Client_Open
  imports Client_Invariants
begin

unbundle bit_operations_syntax

text \<open>
  Creating and destroying a client: \<^verbatim>\<open>quic_client_open\<close> with its helpers, the two callbacks that
  draw random bytes, the hooks the garbage collector calls (\<^verbatim>\<open>ext/quic/connection_client.c\<close>) and
  the defaults of \<^verbatim>\<open>Quic::Settings\<close> and \<^verbatim>\<open>Quic::TransportParams\<close>.

  The C struct is a record whose pointers are handles or \<open>None\<close> (NULL). \<open>quic_client_open\<close> is the
  sequence of its stages; a stage that raises leaves what was built so far in the struct, which
  the collector later hands to \<open>quic_client_free\<close>.
\<close>

section \<open>The struct and the hooks of the collector\<close>

record ngtcp2_cid =
  datalen :: nat
  cid_data :: bytes

record quic_client_t =
  conn :: "nat option"
  ssl_ctx :: "nat option"
  ssl :: "nat option"
  scid :: ngtcp2_cid
  dcid :: ngtcp2_cid
  conn_ref :: bool
  owner :: nat

text \<open>\<open>memset(c, 0, sizeof *c)\<close>: every pointer is NULL and every array is zero.\<close>

definition quic_client_alloc :: "ngtcp2_consts \<Rightarrow> quic_client_t" where
  "quic_client_alloc K = \<lparr>conn = None, ssl_ctx = None, ssl = None,
     scid = \<lparr>datalen = 0, cid_data = replicate (MAX_CIDLEN K) 0\<rparr>,
     dcid = \<lparr>datalen = 0, cid_data = replicate (MAX_CIDLEN K) 0\<rparr>,
     conn_ref = False, owner = 0\<rparr>"

definition free_handle :: "(nat \<Rightarrow> 'x \<Rightarrow> 'x) \<Rightarrow> nat option \<Rightarrow> 'x \<Rightarrow> 'x" where
  "free_handle f h x = (case h of None \<Rightarrow> x | Some p \<Rightarrow> f p x)"

definition quic_client_free :: "'x ext \<Rightarrow> quic_client_t \<Rightarrow> 'x \<Rightarrow> 'x" where
  "quic_client_free X c x =
     free_handle (x_SSL_CTX_free X) (ssl_ctx c)
       (free_handle (x_SSL_free X) (ssl c) (free_handle (x_conn_del X) (conn c) x))"

text \<open>\<open>loc\<close> is \<open>rb_gc_location\<close>: where the collector has moved an object.\<close>

definition quic_client_compact :: "(nat \<Rightarrow> nat) \<Rightarrow> quic_client_t \<Rightarrow> quic_client_t" where
  "quic_client_compact loc c = c\<lparr>owner := loc (owner c)\<rparr>"

definition quic_client_conn :: "quic_client_t \<Rightarrow> nat option" where
  "quic_client_conn c = conn c"

text \<open>\<open>conn_ref->user_data\<close> is the struct itself.\<close>

definition quic_client_get_conn :: "quic_client_t \<Rightarrow> nat option" where
  "quic_client_get_conn c = conn c"

section \<open>Random bytes\<close>

text \<open>
  \<open>RAND_bytes(dest, (int)destlen)\<close> for a buffer \<open>dest\<close>; the first callback ignores the result,
  the second checks it twice.
\<close>

definition quic_rand_cb :: "'x ext \<Rightarrow> bytes \<Rightarrow> nat \<Rightarrow> 'x \<Rightarrow> bytes \<times> 'x" where
  "quic_rand_cb X dest destlen x =
     (case x_RAND_bytes X (nat (c_int (int destlen))) x of ((rv, bs), x') \<Rightarrow> (overlay bs dest, x'))"

definition quic_get_new_connection_id_cb ::
    "'x ext \<Rightarrow> ngtcp2_cid \<Rightarrow> bytes \<Rightarrow> nat \<Rightarrow> 'x \<Rightarrow> int \<times> ngtcp2_cid \<times> bytes \<times> 'x" where
  "quic_get_new_connection_id_cb X cid token cidlen x =
     (let ((rv, bs), x1) = x_RAND_bytes X (nat (c_int (int cidlen))) x;
          cid1 = cid\<lparr>cid_data := overlay bs (cid_data cid)\<rparr>
      in if rv \<noteq> 1 then (ERR_CALLBACK_FAILURE (consts_of X), cid1, token, x1)
         else
           let cid2 = cid1\<lparr>datalen := cidlen\<rparr>;
               ((rv2, tok), x2) = x_RAND_bytes X (STATELESS_RESET_TOKENLEN (consts_of X)) x1;
               token1 = overlay tok token
           in if rv2 \<noteq> 1 then (ERR_CALLBACK_FAILURE (consts_of X), cid2, token1, x2)
              else (0, cid2, token1, x2))"

section \<open>Settings and transport parameters\<close>

definition quic_get_uint64_field :: "rvalue \<Rightarrow> string \<Rightarrow> exn + uint64" where
  "quic_get_uint64_field obj name = bindE (rb_funcall0 obj name) NUM2ULL"

definition quic_cc_algo_from_sym :: "ngtcp2_consts \<Rightarrow> rvalue \<Rightarrow> exn + uint32" where
  "quic_cc_algo_from_sym K symv = bindE (check_symbol symv) (\<lambda>s.
     if s = ''reno'' then Inr (CC_ALGO_RENO K)
     else if s = ''cubic'' then Inr (CC_ALGO_CUBIC K)
     else if s = ''bbr'' then Inr (CC_ALGO_BBR K)
     else rb_raise ArgumentError)"

definition quic_fill_transport_params :: "'x ext \<Rightarrow> rvalue \<Rightarrow> exn + ngtcp2_transport_params" where
  "quic_fill_transport_params X tp =
     bindE (quic_get_uint64_field tp ''initial_max_stream_data_bidi_local'') (\<lambda>a.
     bindE (quic_get_uint64_field tp ''initial_max_stream_data_bidi_remote'') (\<lambda>b.
     bindE (quic_get_uint64_field tp ''initial_max_stream_data_uni'') (\<lambda>c.
     bindE (quic_get_uint64_field tp ''initial_max_data'') (\<lambda>d.
     bindE (quic_get_uint64_field tp ''initial_max_streams_bidi'') (\<lambda>e.
     bindE (quic_get_uint64_field tp ''initial_max_streams_uni'') (\<lambda>f.
     bindE (quic_get_uint64_field tp ''max_idle_timeout'') (\<lambda>g.
     bindE (quic_get_uint64_field tp ''active_connection_id_limit'') (\<lambda>h.
       Inr ((x_transport_params_default X)\<lparr>
         initial_max_stream_data_bidi_local := a, initial_max_stream_data_bidi_remote := b,
         initial_max_stream_data_uni := c, initial_max_data := d, initial_max_streams_bidi := e,
         initial_max_streams_uni := f, max_idle_timeout := g, active_connection_id_limit := h\<rparr>)))))))))"

text \<open>The clock is read first, whatever the fields are.\<close>

definition quic_fill_settings :: "'x ext \<Rightarrow> rvalue \<Rightarrow> 'x \<Rightarrow> (exn + ngtcp2_settings) \<times> 'x" where
  "quic_fill_settings X st x =
     (case quic_now X x of (now, x') \<Rightarrow>
       (bindE (bindE (rb_funcall0 st ''cc_algo'') (quic_cc_algo_from_sym (consts_of X))) (\<lambda>a.
        bindE (quic_get_uint64_field st ''initial_rtt'') (\<lambda>b.
        bindE (quic_get_uint64_field st ''max_window'') (\<lambda>c.
        bindE (quic_get_uint64_field st ''max_stream_window'') (\<lambda>d.
        bindE (quic_get_uint64_field st ''handshake_timeout'') (\<lambda>e.
        bindE (rb_funcall0 st ''no_pmtud'') (\<lambda>f.
          Inr ((x_settings_default X)\<lparr>initial_ts := now, cc_algo := a, initial_rtt := b, max_window := c,
            max_stream_window := d, handshake_timeout := e, no_pmtud := (if RTEST f then 1 else 0)\<rparr>))))))), x'))"

definition settings_default :: rvalue where
  "settings_default = VData [(''cc_algo'', VSym ''cubic''), (''initial_rtt'', VInt 333000000),
     (''max_window'', VInt 0), (''max_stream_window'', VInt 0),
     (''handshake_timeout'', VInt 10000000000), (''no_pmtud'', VBool False), (''alpn'', VArr [])]"

definition transport_params_default :: rvalue where
  "transport_params_default = VData [(''initial_max_stream_data_bidi_local'', VInt 262144),
     (''initial_max_stream_data_bidi_remote'', VInt 262144), (''initial_max_stream_data_uni'', VInt 262144),
     (''initial_max_data'', VInt 1048576), (''initial_max_streams_bidi'', VInt 100),
     (''initial_max_streams_uni'', VInt 100), (''max_idle_timeout'', VInt 30000000000),
     (''active_connection_id_limit'', VInt 7)]"

section \<open>ALPN\<close>

text \<open>The first loop: every entry is a String of 1 to 255 bytes; \<open>total\<close> counts the wire bytes.\<close>

fun alpn_total :: "rvalue list \<Rightarrow> uint64 \<Rightarrow> exn + uint64" where
  "alpn_total [] tot = Inr tot"
| "alpn_total (entry # es) tot = bindE (check_string entry) (\<lambda>(enc, bs).
     if length bs < 1 \<or> length bs > 255 then rb_raise ArgumentError
     else alpn_total es (tot + (1 + of_nat (length bs))))"

text \<open>
  A store of \<open>bs\<close> at index \<open>p\<close> of a memory block. A store behind the end of the block would make
  the list longer, so a block that keeps its length was never overrun.
\<close>

definition store :: "nat \<Rightarrow> bytes \<Rightarrow> bytes \<Rightarrow> bytes" where
  "store p bs block = take p block @ bs @ drop (p + length bs) block"

text \<open>The second loop. An entry that is no String does not get past the first one.\<close>

fun alpn_fill :: "rvalue list \<Rightarrow> nat \<Rightarrow> bytes \<Rightarrow> bytes" where
  "alpn_fill [] p wire = wire"
| "alpn_fill (VStr enc bs # es) p wire =
     alpn_fill es (Suc p + length bs) (store (Suc p) bs (store p [of_nat (length bs)] wire))"
| "alpn_fill (v # es) p wire = alpn_fill es p wire"

section \<open>Opening\<close>

record 'x open_st =
  o_ext :: 'x
  quic_crypto_initialized :: bool
  self_obj :: "quic_client_t option"

definition upd_self :: "(quic_client_t \<Rightarrow> quic_client_t) \<Rightarrow> 'x open_st \<Rightarrow> 'x open_st" where
  "upd_self f st = st\<lparr>self_obj := map_option f (self_obj st)\<rparr>"

record open_kw =
  local_sockaddr :: bytes
  remote_sockaddr :: bytes
  server_name :: bytes
  transport_params :: rvalue
  settings_v :: rvalue

definition open_keywords :: "call_args \<Rightarrow> exn + open_kw" where
  "open_keywords args = bindE (rb_scan_args 0 0 True args) (\<lambda>(pos, opts).
     case opts of None \<Rightarrow> rb_raise ArgumentError
     | Some h \<Rightarrow>
         let lo = kw_aref h ''local_sockaddr''; re = kw_aref h ''remote_sockaddr'';
             name = kw_aref h ''server_name''; tp = kw_aref h ''transport_params'';
             se = kw_aref h ''settings''
         in if NIL_P lo \<or> NIL_P re \<or> NIL_P name \<or> NIL_P tp \<or> NIL_P se then rb_raise ArgumentError
            else bindE (quic_require_binary lo) (\<lambda>lo_bs.
                 bindE (quic_require_binary re) (\<lambda>re_bs.
                 bindE (check_string name) (\<lambda>(enc, name_bs).
                   Inr \<lparr>local_sockaddr = lo_bs, remote_sockaddr = re_bs, server_name = name_bs,
                     transport_params = tp, settings_v = se\<rparr>))))"

definition open_crypto_init :: "'x ext \<Rightarrow> 'x open_st \<Rightarrow> (exn + unit) \<times> 'x open_st" where
  "open_crypto_init X st =
     (if quic_crypto_initialized st then (Inr (), st)
      else case x_crypto_init X (o_ext st) of (rv, x') \<Rightarrow>
        if rv \<noteq> 0 then (rb_raise RuntimeError, st\<lparr>o_ext := x'\<rparr>)
        else (Inr (), st\<lparr>o_ext := x', quic_crypto_initialized := True\<rparr>))"

definition open_alloc :: "'x ext \<Rightarrow> nat \<Rightarrow> 'x open_st \<Rightarrow> (exn + unit) \<times> 'x open_st" where
  "open_alloc X self st = (Inr (), st\<lparr>self_obj := Some ((quic_client_alloc (consts_of X))\<lparr>owner := self\<rparr>)\<rparr>)"

definition open_ssl_ctx :: "'x ext \<Rightarrow> 'x open_st \<Rightarrow> (exn + nat) \<times> 'x open_st" where
  "open_ssl_ctx X st =
     (case x_SSL_CTX_new X (o_ext st) of (h, x1) \<Rightarrow>
       let st1 = upd_self (\<lambda>c. c\<lparr>ssl_ctx := h\<rparr>) (st\<lparr>o_ext := x1\<rparr>) in
       case h of None \<Rightarrow> (rb_raise RuntimeError, st1)
       | Some ctx \<Rightarrow> (case x_configure_client_context X ctx x1 of (rv, x2) \<Rightarrow>
           (if rv \<noteq> 0 then rb_raise RuntimeError else Inr ctx, st1\<lparr>o_ext := x2\<rparr>)))"

text \<open>The server name is passed as a C string: it ends at the first NUL byte.\<close>

definition c_string :: "bytes \<Rightarrow> bytes" where
  "c_string bs = takeWhile (\<lambda>b. b \<noteq> 0) bs"

definition open_ssl :: "'x ext \<Rightarrow> nat \<Rightarrow> bytes \<Rightarrow> 'x open_st \<Rightarrow> (exn + nat) \<times> 'x open_st" where
  "open_ssl X ctx name st =
     (case x_SSL_new X ctx (o_ext st) of (h, x1) \<Rightarrow>
       let st1 = upd_self (\<lambda>c. c\<lparr>ssl := h\<rparr>) (st\<lparr>o_ext := x1\<rparr>) in
       case h of None \<Rightarrow> (rb_raise RuntimeError, st1)
       | Some s \<Rightarrow> (Inr s, st1\<lparr>o_ext := x_SSL_set_tlsext_host_name X s (c_string name)
                               (x_SSL_set_connect_state X s x1)\<rparr>))"

definition open_alpn :: "'x ext \<Rightarrow> nat \<Rightarrow> rvalue \<Rightarrow> 'x open_st \<Rightarrow> (exn + unit) \<times> 'x open_st" where
  "open_alpn X s se st =
     (case bindE (rb_funcall0 se ''alpn'') check_array of
        Inl e \<Rightarrow> (Inl e, st)
      | Inr alpn_ary \<Rightarrow>
          if alpn_ary = [] then (Inr (), st)
          else (case alpn_total alpn_ary 0 of Inl e \<Rightarrow> (Inl e, st)
            | Inr tot \<Rightarrow>
                let wire = alpn_fill alpn_ary 0 (replicate (unat tot) 0) in
                (case x_SSL_set_alpn_protos X s wire (ucast tot) (o_ext st) of (rv, x1) \<Rightarrow>
                  (if rv \<noteq> 0 then rb_raise RuntimeError else Inr (), st\<lparr>o_ext := x1\<rparr>))))"

definition open_conn_ref :: "'x ext \<Rightarrow> nat \<Rightarrow> 'x open_st \<Rightarrow> (exn + unit) \<times> 'x open_st" where
  "open_conn_ref X s st =
     (Inr (), upd_self (\<lambda>c. c\<lparr>conn_ref := True\<rparr>) (st\<lparr>o_ext := x_SSL_set_app_data X s (o_ext st)\<rparr>))"

definition rand_cid :: "bytes \<Rightarrow> ngtcp2_cid \<Rightarrow> ngtcp2_cid" where
  "rand_cid bs c = \<lparr>datalen = 8, cid_data = overlay bs (cid_data c)\<rparr>"

definition open_scid :: "'x ext \<Rightarrow> 'x open_st \<Rightarrow> (exn + unit) \<times> 'x open_st" where
  "open_scid X st =
     (case x_RAND_bytes X 8 (o_ext st) of ((rv, bs), x1) \<Rightarrow>
       (if rv \<noteq> 1 then rb_raise RuntimeError else Inr (),
        upd_self (\<lambda>c. c\<lparr>scid := rand_cid bs (scid c)\<rparr>) (st\<lparr>o_ext := x1\<rparr>)))"

definition open_dcid :: "'x ext \<Rightarrow> 'x open_st \<Rightarrow> (exn + unit) \<times> 'x open_st" where
  "open_dcid X st =
     (case x_RAND_bytes X 8 (o_ext st) of ((rv, bs), x1) \<Rightarrow>
       (if rv \<noteq> 1 then rb_raise RuntimeError else Inr (),
        upd_self (\<lambda>c. c\<lparr>dcid := rand_cid bs (dcid c)\<rparr>) (st\<lparr>o_ext := x1\<rparr>)))"

definition open_settings :: "'x ext \<Rightarrow> rvalue \<Rightarrow> 'x open_st \<Rightarrow> (exn + ngtcp2_settings) \<times> 'x open_st" where
  "open_settings X se st =
     (case quic_fill_settings X se (o_ext st) of (r, x1) \<Rightarrow> (r, st\<lparr>o_ext := x1\<rparr>))"

text \<open>
  \<open>ngtcp2_conn_client_new\<close> stores the connection through \<open>&c->conn\<close>; the bytes of a connection
  id are the first \<open>datalen\<close> of its array.
\<close>

definition cid_bytes :: "ngtcp2_cid \<Rightarrow> bytes" where
  "cid_bytes c = take (datalen c) (cid_data c)"

definition open_conn :: "'x ext \<Rightarrow> nat \<Rightarrow> path \<Rightarrow> ngtcp2_settings \<Rightarrow> ngtcp2_transport_params \<Rightarrow>
    'x open_st \<Rightarrow> (exn + unit) \<times> 'x open_st" where
  "open_conn X s pth se params st =
     (case self_obj st of None \<Rightarrow> (Inr (), st)
      | Some c \<Rightarrow> (case x_client_new X (cid_bytes (dcid c)) (cid_bytes (scid c)) pth (PROTO_VER_V1 (consts_of X))
            se params (o_ext st) of
          ((rv, h), x1) \<Rightarrow>
            let st1 = upd_self (\<lambda>c. c\<lparr>conn := h\<rparr>) (st\<lparr>o_ext := x1\<rparr>) in
            if rv \<noteq> 0 then (quic_raise_ngtcp2_error (consts_of X) rv, st1)
            else (Inr (), st1\<lparr>o_ext := free_handle (\<lambda>p. x_set_tls_native_handle X p s) h x1\<rparr>)))"

text \<open>The client as Ruby sees it: an empty registry, an empty accept queue, no socket.\<close>

definition open_done :: "'x open_st \<Rightarrow> (exn + 'x client) \<times> 'x open_st" where
  "open_done st = (Inr \<lparr>ext_st = o_ext st, heap = Map.empty, next_ref = 0, streams = [], accept_queue = [],
     sock = None, iv_pump_local_sockaddr = None, iv_pump_remote_sockaddr = None\<rparr>, st)"

definition quic_client_open :: "'x ext \<Rightarrow> nat \<Rightarrow> call_args \<Rightarrow> 'x open_st \<Rightarrow> (exn + 'x client) \<times> 'x open_st" where
  "quic_client_open X self args =
     bindW (liftE (open_keywords args)) (\<lambda>kw.
     bindW (open_crypto_init X) (\<lambda>_.
     bindW (open_alloc X self) (\<lambda>_.
     bindW (open_ssl_ctx X) (\<lambda>ctx.
     bindW (open_ssl X ctx (server_name kw)) (\<lambda>s.
     bindW (open_alpn X s (settings_v kw)) (\<lambda>_.
     bindW (open_conn_ref X s) (\<lambda>_.
     bindW (open_scid X) (\<lambda>_.
     bindW (open_dcid X) (\<lambda>_.
     bindW (open_settings X (settings_v kw)) (\<lambda>se.
     bindW (liftE (quic_fill_transport_params X (transport_params kw))) (\<lambda>params.
     bindW (open_conn X s (local_sockaddr kw, remote_sockaddr kw) se params) (\<lambda>_.
     open_done))))))))))))"

end
