(* ===== verification/Io_Loop.thy ===== *)
theory Io_Loop
  imports Client_Open
begin

unbundle bit_operations_syntax

text \<open>
  The blocking layer: the I/O loop of \<^verbatim>\<open>lib/quic/connection.rb\<close> (\<open>pump_once\<close>, \<open>pump_until\<close>,
  \<open>run\<close>, \<open>accept_stream\<close>, \<open>Client.new\<close>), \<^verbatim>\<open>Stream#read\<close> of \<^verbatim>\<open>lib/quic/stream.rb\<close> and the blocking
  \<^verbatim>\<open>Stream#write\<close> of \<^verbatim>\<open>ext/quic/stream.c\<close>, which pumps through it.

  Each of these may wait forever, so their loops are partial functions into \<open>option\<close>: \<open>None\<close>
  means that the call does not return, \<open>Some (Inl e, w)\<close> that it raises, \<open>Some (Inr a, w)\<close> that
  it returns. Time is counted in nanoseconds.
\<close>

section \<open>Waiting\<close>

text \<open>\<^verbatim>\<open>Process.clock_gettime(CLOCK_MONOTONIC, :nanosecond)\<close>.\<close>

definition clock_ns :: "'x ext \<Rightarrow> 'x client \<Rightarrow> int \<times> 'x client" where
  "clock_ns X w = (case x_clock_gettime X (ext_st w) of ((tv_sec, tv_nsec), x') \<Rightarrow>
     (tv_sec * 1000000000 + tv_nsec, w\<lparr>ext_st := x'\<rparr>))"

definition pump_timeout :: "'x ext \<Rightarrow> int option \<Rightarrow> 'x client \<Rightarrow> int option \<times> 'x client" where
  "pump_timeout X caller_timeout w =
     (case quic_client_expiry X w of None \<Rightarrow> (caller_timeout, w)
      | Some ngtcp2_expiry_ns \<Rightarrow>
          let (now_ns, w1) = clock_ns X w;
              expiry_left = max (ngtcp2_expiry_ns - now_ns) 0
          in (Some (case caller_timeout of None \<Rightarrow> expiry_left | Some t \<Rightarrow> min t expiry_left), w1))"

definition any_addr :: rvalue where
  "any_addr = VStr UTF_8 [48, 46, 48, 46, 48, 46, 48]"

text \<open>The two memoised addresses (\<^verbatim>\<open>||=\<close>).\<close>

definition pump_local_sockaddr :: "'x ext \<Rightarrow> 'x client \<Rightarrow> (exn + bytes) \<times> 'x client" where
  "pump_local_sockaddr X w =
     (case iv_pump_local_sockaddr w of Some a \<Rightarrow> (Inr a, w)
      | None \<Rightarrow> (case x_addrinfo X None any_addr 0 (ext_st w) of
          (Inl e, x') \<Rightarrow> (Inl e, w\<lparr>ext_st := x'\<rparr>)
        | (Inr a, x') \<Rightarrow> (Inr a, w\<lparr>ext_st := x', iv_pump_local_sockaddr := Some a\<rparr>)))"

definition pump_remote_sockaddr :: "'x ext \<Rightarrow> nat \<Rightarrow> 'x client \<Rightarrow> (exn + bytes) \<times> 'x client" where
  "pump_remote_sockaddr X so w =
     (case iv_pump_remote_sockaddr w of Some a \<Rightarrow> (Inr a, w)
      | None \<Rightarrow> (case x_sock_remote_address X so (ext_st w) of
          (Inl e, x') \<Rightarrow> (Inl e, w\<lparr>ext_st := x'\<rparr>)
        | (Inr a, x') \<Rightarrow> (Inr a, w\<lparr>ext_st := x', iv_pump_remote_sockaddr := Some a\<rparr>)))"

definition pump_select :: "'x ext \<Rightarrow> nat \<Rightarrow> int option \<Rightarrow> 'x client \<Rightarrow> (exn + bool) \<times> 'x client" where
  "pump_select X so timeout w =
     (let (wait_for, w1) = pump_timeout X timeout w;
          (ready, x') = x_sock_select X so wait_for (ext_st w1)
      in (ready, w1\<lparr>ext_st := x'\<rparr>))"

definition pump_recvfrom :: "'x ext \<Rightarrow> nat \<Rightarrow> 'x client \<Rightarrow> (exn + bytes) \<times> 'x client" where
  "pump_recvfrom X so w =
     (case x_sock_recvfrom X so 2048 (ext_st w) of (r, x') \<Rightarrow> (r, w\<lparr>ext_st := x'\<rparr>))"

text \<open>The datagram is a fresh binary String, so it is not locked.\<close>

definition pump_read_pkt :: "'x ext \<Rightarrow> bytes \<Rightarrow> bytes \<Rightarrow> bytes \<Rightarrow> 'x client \<Rightarrow> (exn + unit) \<times> 'x client" where
  "pump_read_pkt X data lo re w =
     (case quic_client_read_pkt X \<lparr>positional = [VStr ASCII_8BIT data],
          kwargs = Some [(''local_sockaddr'', VStr ASCII_8BIT lo), (''remote_sockaddr'', VStr ASCII_8BIT re)]\<rparr> (False, w) of
        (r, lk, w') \<Rightarrow> (r, w'))"

definition pump_wait :: "'x ext \<Rightarrow> nat \<Rightarrow> int option \<Rightarrow> 'x client \<Rightarrow> (exn + unit) \<times> 'x client" where
  "pump_wait X so timeout =
     bindW (pump_select X so timeout) (\<lambda>ready.
       if ready then
         bindW (pump_recvfrom X so) (\<lambda>data.
         bindW (pump_local_sockaddr X) (\<lambda>lo.
         bindW (pump_remote_sockaddr X so) (\<lambda>re.
           pump_read_pkt X data lo re)))
       else quic_client_handle_expiry X)"

section \<open>The loop\<close>

partial_function (option) pump_flush :: "'x ext \<Rightarrow> nat \<Rightarrow> 'x client \<Rightarrow> ((exn + unit) \<times> 'x client) option" where
  "pump_flush X so w =
     (case quic_client_write_pkt X \<lparr>positional = [], kwargs = None\<rparr> w of (r, buf, w1) \<Rightarrow>
        (case r of
           Inl e \<Rightarrow> Some (Inl e, w1)
         | Inr None \<Rightarrow> Some (Inr (), w1)
         | Inr (Some pkt) \<Rightarrow>
             (case x_sock_send X so pkt (ext_st w1) of (sent, x') \<Rightarrow>
               (case sent of
                  Inl e \<Rightarrow> Some (Inl e, w1\<lparr>ext_st := x'\<rparr>)
                | Inr u \<Rightarrow> pump_flush X so (w1\<lparr>ext_st := x'\<rparr>)))))"

definition pump_once :: "'x ext \<Rightarrow> int option \<Rightarrow> 'x client \<Rightarrow> ((exn + unit) \<times> 'x client) option" where
  "pump_once X timeout w =
     (case sock w of None \<Rightarrow> Some (rb_raise (QuicError QNotBound), w)
      | Some so \<Rightarrow> (case pump_flush X so w of
          None \<Rightarrow> None
        | Some (Inl e, w1) \<Rightarrow> Some (Inl e, w1)
        | Some (Inr u, w1) \<Rightarrow> Some (pump_wait X so timeout w1)))"

partial_function (option) pump_until :: "'x ext \<Rightarrow> ('x client \<Rightarrow> bool) \<Rightarrow> 'x client \<Rightarrow> ((exn + unit) \<times> 'x client) option" where
  "pump_until X pred w =
     (if pred w then Some (Inr (), w)
      else (case pump_once X None w of
          None \<Rightarrow> None
        | Some (r, w1) \<Rightarrow> (case r of Inl e \<Rightarrow> Some (Inl e, w1) | Inr u \<Rightarrow> pump_until X pred w1)))"

definition run :: "'x ext \<Rightarrow> 'x client \<Rightarrow> ((exn + unit) \<times> 'x client) option" where
  "run X w =
     (if sock w = None then Some (rb_raise (QuicError QNotBound), w)
      else pump_until X (quic_client_handshake_completed_p X) w)"

section \<open>Accepting streams\<close>

partial_function (option) accept_loop :: "'x ext \<Rightarrow> int option \<Rightarrow> 'x client \<Rightarrow> ((exn + nat option) \<times> 'x client) option" where
  "accept_loop X deadline w =
     (case (case deadline of None \<Rightarrow> (None, w)
            | Some d \<Rightarrow> (case clock_ns X w of (now, w1) \<Rightarrow> (Some (d - now), w1))) of
        (remaining, w1) \<Rightarrow>
          if (case remaining of None \<Rightarrow> False | Some t \<Rightarrow> t \<le> 0) then Some (Inr None, w1)
          else (case pump_once X remaining w1 of
              None \<Rightarrow> None
            | Some (r, w2) \<Rightarrow> (case r of
                Inl e \<Rightarrow> Some (Inl e, w2)
              | Inr u \<Rightarrow> (case ary_shift (accept_queue w2) of (st, q) \<Rightarrow>
                  (case st of
                     Some s \<Rightarrow> Some (Inr (Some s), w2\<lparr>accept_queue := q\<rparr>)
                   | None \<Rightarrow> accept_loop X deadline (w2\<lparr>accept_queue := q\<rparr>))))))"

definition accept_stream :: "'x ext \<Rightarrow> int option \<Rightarrow> 'x client \<Rightarrow> ((exn + nat option) \<times> 'x client) option" where
  "accept_stream X timeout w =
     (case ary_shift (accept_queue w) of
        (Some s, q) \<Rightarrow> Some (Inr (Some s), w\<lparr>accept_queue := q\<rparr>)
      | (None, q) \<Rightarrow>
          let w1 = w\<lparr>accept_queue := q\<rparr> in
          if timeout = Some 0 then Some (Inr None, w1)
          else (case timeout of None \<Rightarrow> accept_loop X None w1
            | Some t \<Rightarrow> (case clock_ns X w1 of (now, w2) \<Rightarrow> accept_loop X (Some (now + t)) w2)))"

section \<open>Blocking writes\<close>

text \<open>The receiver of a method exists, so the branch without an object is not reached.\<close>

partial_function (option) write_wait :: "'x ext \<Rightarrow> nat \<Rightarrow> nat \<Rightarrow> 'x client \<Rightarrow> ((exn + unit) \<times> 'x client) option" where
  "write_wait X r needed w =
     (if (case heap w r of None \<Rightarrow> False
          | Some s \<Rightarrow> quic_stream_window_left X (ext_st w) s < of_nat needed)
      then (case pump_once X None w of
          None \<Rightarrow> None
        | Some (res, w1) \<Rightarrow> (case res of Inl e \<Rightarrow> Some (Inl e, w1) | Inr u \<Rightarrow> write_wait X r needed w1))
      else Some (Inr (), w))"

definition quic_stream_write_m :: "'x ext \<Rightarrow> nat \<Rightarrow> call_args \<Rightarrow> 'x client \<Rightarrow> ((exn + int) \<times> 'x client) option" where
  "quic_stream_write_m X r args w =
     (case quic_stream_fin_kwarg args of Inl e \<Rightarrow> Some (Inl e, w)
      | Inr (data, fin) \<Rightarrow> (case heap w r of None \<Rightarrow> Some (rb_raise TypeError, w)
        | Some s \<Rightarrow>
            if \<not> has_client s then Some (stream_enqueue r data fin w)
            else (case check_string data of Inl e \<Rightarrow> Some (Inl e, w)
              | Inr (enc, bs) \<Rightarrow>
                  if length bs > 0 then
                    (case write_wait X r (length bs) w of
                       None \<Rightarrow> None
                     | Some (Inl e, w1) \<Rightarrow> Some (Inl e, w1)
                     | Some (Inr u, w1) \<Rightarrow> Some (stream_enqueue r data fin w1))
                  else Some (stream_enqueue r data fin w))))"

section \<open>Blocking reads\<close>

definition stream_eof :: "nat \<Rightarrow> 'x client \<Rightarrow> bool" where
  "stream_eof r w = (case heap w r of None \<Rightarrow> False | Some s \<Rightarrow> quic_stream_eof_p s)"

text \<open>
  The instance variable \<open>@fin_received\<close>. Neither the extension nor the library assigns it (the
  flag of that name is a member of the C struct), so reading it gives nil.
\<close>

definition iv_fin_received :: "nat \<Rightarrow> 'x client \<Rightarrow> rvalue" where
  "iv_fin_received r w = VNil"

definition readable :: "nat \<Rightarrow> 'x client \<Rightarrow> bool" where
  "readable r w = (case heap w r of None \<Rightarrow> False
     | Some s \<Rightarrow> length (recv_buffer s) > 0 \<or> RTEST (iv_fin_received r w))"

partial_function (option) read_until_eof :: "nat \<Rightarrow> bytes \<Rightarrow> 'x client \<Rightarrow> ((exn + bytes) \<times> 'x client) option" where
  "read_until_eof r out w =
     (if stream_eof r w then Some (Inr out, w)
      else (case stream_read_nonblock r (VInt 4096) w of (res, w1) \<Rightarrow>
        (case res of Inl e \<Rightarrow> Some (Inl e, w1) | Inr bs \<Rightarrow> read_until_eof r (out @ bs) w1)))"

partial_function (option) read_drain :: "nat \<Rightarrow> bytes \<Rightarrow> 'x client \<Rightarrow> ((exn + bytes) \<times> 'x client) option" where
  "read_drain r out w =
     (case stream_read_nonblock r (VInt 4096) w of (res, w1) \<Rightarrow>
        (case res of
           Inl e \<Rightarrow> if exn_class e = QuicError QWaitReadable \<or> exn_class e = EOFError
                    then Some (Inr out, w1) else Some (Inl e, w1)
         | Inr bs \<Rightarrow> read_drain r (out @ bs) w1))"

definition read_all :: "'x ext \<Rightarrow> nat \<Rightarrow> 'x client \<Rightarrow> ((exn + rvalue) \<times> 'x client) option" where
  "read_all X r w =
     (case pump_until X (stream_eof r) w of
        None \<Rightarrow> None
      | Some (Inl e, w1) \<Rightarrow> Some (Inl e, w1)
      | Some (Inr u, w1) \<Rightarrow> (case read_until_eof r [] w1 of
          None \<Rightarrow> None
        | Some (Inl e, w2) \<Rightarrow> Some (Inl e, w2)
        | Some (Inr out, w2) \<Rightarrow> (case read_drain r out w2 of
            None \<Rightarrow> None
          | Some (Inl e, w3) \<Rightarrow> Some (Inl e, w3)
          | Some (Inr out', w3) \<Rightarrow> Some (Inr (VStr ASCII_8BIT out'), w3))))"

definition read_some :: "'x ext \<Rightarrow> nat \<Rightarrow> rvalue \<Rightarrow> 'x client \<Rightarrow> ((exn + rvalue) \<times> 'x client) option" where
  "read_some X r len w =
     (case pump_until X (readable r) w of
        None \<Rightarrow> None
      | Some (Inl e, w1) \<Rightarrow> Some (Inl e, w1)
      | Some (Inr u, w1) \<Rightarrow> (case stream_read_nonblock r len w1 of
          (Inr bs, w2) \<Rightarrow> Some (Inr (VStr ASCII_8BIT bs), w2)
        | (Inl e, w2) \<Rightarrow> if exn_class e = EOFError then Some (Inr VNil, w2) else Some (Inl e, w2)))"

text \<open>On a bare stream \<open>@client\<close> is nil, and nil has no \<open>pump_until\<close>.\<close>

definition stream_read :: "'x ext \<Rightarrow> nat \<Rightarrow> rvalue \<Rightarrow> 'x client \<Rightarrow> ((exn + rvalue) \<times> 'x client) option" where
  "stream_read X r len w =
     (case heap w r of None \<Rightarrow> Some (rb_raise NoMethodError, w)
      | Some s \<Rightarrow>
          if \<not> has_client s then Some (rb_raise NoMethodError, w)
          else if NIL_P len then read_all X r w else read_some X r len w)"

section \<open>Creating a client from Ruby\<close>

definition address_family :: "ngtcp2_consts \<Rightarrow> rvalue \<Rightarrow> exn + int option" where
  "address_family K v =
     (if NIL_P v then Inr None
      else if v = VSym ''inet'' then Inr (Some (AF_INET K))
      else if v = VSym ''inet6'' then Inr (Some (AF_INET6 K))
      else rb_raise ArgumentError)"

definition resolve :: "'x ext \<Rightarrow> int option \<Rightarrow> rvalue \<Rightarrow> int \<Rightarrow> 'x open_st \<Rightarrow> (exn + bytes) \<times> 'x open_st" where
  "resolve X family host port st =
     (case x_addrinfo X family host port (o_ext st) of (r, x') \<Rightarrow> (r, st\<lparr>o_ext := x'\<rparr>))"

definition client_new :: "'x ext \<Rightarrow> nat \<Rightarrow> rvalue \<Rightarrow> int \<Rightarrow> rvalue \<Rightarrow> rvalue \<Rightarrow> rvalue \<Rightarrow>
    'x open_st \<Rightarrow> (exn + ('x client \<times> bytes)) \<times> 'x open_st" where
  "client_new X self host port fam tp se =
     bindW (liftE (address_family (consts_of X) fam)) (\<lambda>family.
     bindW (resolve X family host port) (\<lambda>remote.
     bindW (resolve X None any_addr 0) (\<lambda>local.
     bindW (quic_client_open X self \<lparr>positional = [], kwargs = Some [
         (''local_sockaddr'', VStr ASCII_8BIT local), (''remote_sockaddr'', VStr ASCII_8BIT remote),
         (''server_name'', host),
         (''transport_params'', if RTEST tp then tp else transport_params_default),
         (''settings'', if RTEST se then se else settings_default)]\<rparr>) (\<lambda>client.
       liftE (Inr (client, remote))))))"

end
