(* ===== verification/Open_Properties.thy ===== *)
theory Open_Properties
  imports Client_Open
begin

unbundle bit_operations_syntax

text \<open>
  What opening a client guarantees: the ALPN wire format decodes to the configured names and
  fills its block exactly, settings and transport parameters reach ngtcp2 field by field, a
  client that was opened is in the initial state of the client's state machine, and whatever
  stage fails, the collector releases every library object that was created.
\<close>

section \<open>ALPN\<close>

definition alpn_ok :: "rvalue \<Rightarrow> bool" where
  "alpn_ok v = (case v of VStr enc bs \<Rightarrow> bs \<noteq> [] \<and> length bs \<le> 255 | _ \<Rightarrow> False)"

definition alpn_name :: "rvalue \<Rightarrow> bytes" where
  "alpn_name v = (case v of VStr enc bs \<Rightarrow> bs | _ \<Rightarrow> [])"

lemma alpn_okE:
  assumes "alpn_ok v"
  obtains enc bs where "v = VStr enc bs" "bs \<noteq> []" "length bs \<le> 255"
  using assms by (cases v) (auto simp: alpn_ok_def)

text \<open>The reference encoding of RFC 7301 and its decoder.\<close>

definition alpn_frame :: "bytes \<Rightarrow> bytes" where
  "alpn_frame bs = of_nat (length bs) # bs"

function alpn_decode :: "bytes \<Rightarrow> bytes list option" where
  "alpn_decode [] = Some []"
| "alpn_decode (n # rest) =
     (if unat n = 0 \<or> length rest < unat n then None
      else map_option (\<lambda>names. take (unat n) rest # names) (alpn_decode (drop (unat n) rest)))"
  by pat_completeness auto
termination by (relation "measure length") auto

lemma unat_byte: "n < 256 \<Longrightarrow> unat (of_nat n :: byte) = n"
  by (simp add: unat_of_nat take_bit_nat_eq_self)

lemma alpn_decode_frames:
  "\<forall>bs \<in> set names. bs \<noteq> [] \<and> length bs \<le> 255 \<Longrightarrow>
   alpn_decode (concat (map alpn_frame names)) = Some names"
  by (induction names) (auto simp: alpn_frame_def unat_byte)

abbreviation alpn_wire :: "rvalue list \<Rightarrow> bytes" where
  "alpn_wire es \<equiv> concat (map (\<lambda>e. alpn_frame (alpn_name e)) es)"

lemma alpn_total_Inr:
  "alpn_total es t = Inr t' \<longleftrightarrow> (\<forall>e \<in> set es. alpn_ok e) \<and> t' = t + of_nat (length (alpn_wire es))"
proof (induction es arbitrary: t)
  case (Cons e es)
  show ?case
  proof (cases "alpn_ok e")
    case True
    then obtain enc bs where e: "e = VStr enc bs" "bs \<noteq> []" "length bs \<le> 255" by (rule alpn_okE)
    then have "alpn_total es (t + (1 + of_nat (length bs))) = Inr t' \<longleftrightarrow>
        (\<forall>e \<in> set es. alpn_ok e) \<and> t' = t + (1 + of_nat (length bs)) + of_nat (length (alpn_wire es))"
      by (simp add: Cons.IH)
    with e True show ?thesis by (auto simp: alpn_frame_def alpn_name_def ac_simps)
  qed (cases e; auto simp: alpn_ok_def)
qed auto

lemma store_store: "p \<le> length w \<Longrightarrow> store (p + length a) b (store p a w) = store p (a @ b) w"
  by (simp add: store_def ac_simps)

lemma length_store: "p + length bs \<le> length w \<Longrightarrow> length (store p bs w) = length w"
  by (simp add: store_def)

lemma store_Nil: "store p [] w = w"
  by (simp add: store_def)

lemma alpn_fill_store:
  "\<forall>e \<in> set es. alpn_ok e \<Longrightarrow> p + length (alpn_wire es) \<le> length w \<Longrightarrow>
   alpn_fill es p w = store p (alpn_wire es) w"
proof (induction es p w rule: alpn_fill.induct)
  case (2 enc bs es p w)
  let ?w = "store (Suc p) bs (store p [of_nat (length bs)] w)"
  have w: "?w = store p (alpn_frame bs) w"
    using store_store [of p w "[of_nat (length bs)]" bs] "2.prems" by (simp add: alpn_frame_def)
  have l: "length ?w = length w" using "2.prems" by (simp add: w length_store alpn_name_def)
  have "alpn_fill es (Suc p + length bs) ?w = store (Suc p + length bs) (alpn_wire es) ?w"
    using "2.prems" l by (intro "2.IH") (simp_all add: alpn_frame_def alpn_name_def)
  also have "\<dots> = store p (alpn_frame bs @ alpn_wire es) w"
    using store_store [of p w "alpn_frame bs" "alpn_wire es"] "2.prems" by (simp add: w) (simp add: alpn_frame_def)
  finally show ?case by (simp add: alpn_name_def)
qed (simp_all add: store_Nil alpn_ok_def)

lemma alpn_wire_length: "\<forall>e \<in> set es. alpn_ok e \<Longrightarrow> length (alpn_wire es) \<le> 256 * length es"
proof (induction es)
  case (Cons e es)
  then show ?case by (cases e) (auto simp: alpn_ok_def alpn_frame_def alpn_name_def)
qed simp

text \<open>
  C23. ALPN wire format. When the entries pass the check (and are fewer than \<open>2^24\<close>, so that the
  cast of the length to \<^verbatim>\<open>unsigned int\<close> keeps it), the second loop fills the block of \<open>tot\<close>
  bytes exactly, whatever it held before: no byte is written outside it and none is left
  over; the length passed to \<open>SSL_set_alpn_protos\<close> is the length of the block, and a decoder of
  RFC 7301 reads back the configured names in order.
\<close>

theorem alpn_round_trip:
  assumes tot: "alpn_total es 0 = Inr tot" and n: "length es < 2 ^ 24" and block: "length block = unat tot"
  shows "length (alpn_fill es 0 block) = unat tot \<and>
    unat (ucast tot :: uint32) = unat tot \<and>
    alpn_decode (alpn_fill es 0 block) = Some (map alpn_name es)"
proof -
  have ok: "\<forall>e \<in> set es. alpn_ok e" and t: "tot = of_nat (length (alpn_wire es))"
    using tot by (simp_all add: alpn_total_Inr)
  have lt: "length (alpn_wire es) < 2 ^ 32" using alpn_wire_length [OF ok] n by simp
  then have u: "unat tot = length (alpn_wire es)" by (simp add: t unat_of_nat64)
  have f: "alpn_fill es 0 block = alpn_wire es"
    using alpn_fill_store [OF ok, of 0 block] block u by (simp add: store_def)
  have "alpn_name e \<noteq> [] \<and> length (alpn_name e) \<le> 255" if "e \<in> set es" for e
    using ok that by (force simp: alpn_ok_def alpn_name_def split: rvalue.splits)
  then have "alpn_decode (alpn_wire es) = Some (map alpn_name es)"
    using alpn_decode_frames [of "map alpn_name es"] by (simp add: comp_def)
  moreover have "unat (ucast tot :: uint32) = unat tot"
    using lt u by (simp add: unsigned_ucast_eq take_bit_nat_eq_self)
  ultimately show ?thesis using f u by simp
qed

theorem alpn_round_trip_witness:
  "alpn_decode (alpn_fill [VStr UTF_8 [104, 51], VStr UTF_8 [120]] 0 [9, 9, 9, 9, 9]) = Some [[104, 51], [120]]"
proof -
  have "alpn_total [VStr UTF_8 [104, 51], VStr UTF_8 [120]] 0 = Inr 5" by simp
  from alpn_round_trip [OF this, of "[9, 9, 9, 9, 9]"] show ?thesis by (simp add: alpn_name_def)
qed

text \<open>The first element without a property, one element at a time.\<close>

lemma first_bad_Cons:
  "(\<exists>before bad after. x # es = before @ bad # after \<and> (\<forall>v \<in> set before. P v) \<and> \<not> P bad \<and> Q bad) \<longleftrightarrow>
   (if P x then \<exists>before bad after. es = before @ bad # after \<and> (\<forall>v \<in> set before. P v) \<and> \<not> P bad \<and> Q bad
    else Q x)"
proof (cases "P x")
  case True
  show ?thesis (is "?L \<longleftrightarrow> _")
  proof
    assume ?L
    with True show "if P x then \<exists>before bad after. es = before @ bad # after \<and> (\<forall>v \<in> set before. P v) \<and> \<not> P bad \<and> Q bad else Q x"
      by (force simp: Cons_eq_append_conv)
  next
    assume "if P x then \<exists>before bad after. es = before @ bad # after \<and> (\<forall>v \<in> set before. P v) \<and> \<not> P bad \<and> Q bad else Q x"
    with True obtain b a c where "es = b @ a # c" "\<forall>v \<in> set b. P v" "\<not> P a" "Q a" by auto
    with True show ?L by (intro exI [of _ "x # b"]) auto
  qed
qed (fastforce simp: Cons_eq_append_conv)

text \<open>
  ALPN validation. The check rejects a list exactly when an entry is no String or is not 1 to
  255 bytes long, and the first such entry decides the exception.
\<close>

theorem alpn_validation:
  "alpn_total es t = Inl e \<longleftrightarrow>
   (\<exists>before bad after. es = before @ bad # after \<and> (\<forall>v \<in> set before. alpn_ok v) \<and> \<not> alpn_ok bad \<and>
      e = Exn (case bad of VStr enc bs \<Rightarrow> ArgumentError | _ \<Rightarrow> TypeError) None)"
proof (induction es arbitrary: t)
  case (Cons x es)
  show ?case
  proof (cases "alpn_ok x")
    case True
    then obtain enc bs where "x = VStr enc bs" "bs \<noteq> []" "length bs \<le> 255" by (rule alpn_okE)
    then have "alpn_total (x # es) t = Inl e \<longleftrightarrow> alpn_total es (t + (1 + of_nat (length bs))) = Inl e"
      by simp
    with True show ?thesis by (simp only: Cons.IH first_bad_Cons if_True)
  next
    case False
    then have "alpn_total (x # es) t = Inl e \<longleftrightarrow> e = Exn (case x of VStr enc bs \<Rightarrow> ArgumentError | _ \<Rightarrow> TypeError) None"
      by (cases x) (auto simp: alpn_ok_def)
    with False show ?thesis by (simp only: first_bad_Cons if_False)
  qed
qed simp

theorem alpn_validation_witness:
  "alpn_total [VStr UTF_8 [104, 51], VInt 3, VStr UTF_8 []] 0 = rb_raise TypeError"
proof -
  let ?es = "[VStr UTF_8 [104, 51], VInt 3, VStr UTF_8 []]"
  have "?es = [VStr UTF_8 [104, 51]] @ VInt 3 # [VStr UTF_8 []]" "\<forall>v \<in> set [VStr UTF_8 [104, 51]]. alpn_ok v" "\<not> alpn_ok (VInt 3)"
    by (simp_all add: alpn_ok_def)
  then show ?thesis using alpn_validation [of ?es 0 "Exn TypeError None"] by fastforce
qed

text \<open>
  The block has no upper bound. Nothing limits the number of entries, so the stack block that
  the comment calls safe because \<open>tot <= 65536\<close> grows with the list: \<open>n\<close> names of 255 bytes ask
  for \<open>256 * n\<close> bytes.
\<close>

theorem alpn_block_unbounded:
  assumes "n < 2 ^ 56"
  shows "\<exists>es tot. length es = n \<and> alpn_total es 0 = Inr tot \<and> unat tot = 256 * n"
proof (intro exI conjI)
  let ?es = "replicate n (VStr UTF_8 (replicate 255 0))"
  have l: "length (alpn_wire ?es) = 256 * n"
    by (simp add: length_concat sum_list_replicate alpn_frame_def alpn_name_def)
  show "length ?es = n" by simp
  show "alpn_total ?es 0 = Inr (of_nat (256 * n))"
    unfolding alpn_total_Inr l by (simp add: alpn_ok_def)
  show "unat (of_nat (256 * n) :: uint64) = 256 * n" using assms by (intro unat_of_nat64) simp
qed

theorem alpn_block_unbounded_witness:
  "\<exists>es tot. length es = 257 \<and> alpn_total es 0 = Inr tot \<and> unat tot = 65792"
  using alpn_block_unbounded [of 257] by simp

section \<open>Configuration\<close>

definition transport_param_names :: "string list" where
  "transport_param_names = [''initial_max_stream_data_bidi_local'', ''initial_max_stream_data_bidi_remote'',
     ''initial_max_stream_data_uni'', ''initial_max_data'', ''initial_max_streams_bidi'',
     ''initial_max_streams_uni'', ''max_idle_timeout'', ''active_connection_id_limit'']"

definition transport_param_values :: "ngtcp2_transport_params \<Rightarrow> uint64 list" where
  "transport_param_values p = [initial_max_stream_data_bidi_local p, initial_max_stream_data_bidi_remote p,
     initial_max_stream_data_uni p, initial_max_data p, initial_max_streams_bidi p,
     initial_max_streams_uni p, max_idle_timeout p, active_connection_id_limit p]"

text \<open>
  What the documentation of CRuby says about reading an attribute as an unsigned 64-bit number,
  without the conversion functions of the model: which attributes an object has, and which class
  of exception an attribute of the wrong kind raises (\<open>None\<close> when it can be read).
\<close>

definition attr_of :: "rvalue \<Rightarrow> string \<Rightarrow> rvalue option" where
  "attr_of v name = (case v of VData fs \<Rightarrow> map_of fs name | _ \<Rightarrow> None)"

definition uint64_problem :: "rvalue option \<Rightarrow> exn_class option" where
  "uint64_problem v = (case v of None \<Rightarrow> Some NoMethodError
     | Some (VInt n) \<Rightarrow> if n < - (2 ^ 63) \<or> 2 ^ 64 \<le> n then Some RangeError else None
     | Some _ \<Rightarrow> Some TypeError)"

text \<open>A stored 64-bit value is the Integer of an attribute, a negative one modulo \<open>2^64\<close>.\<close>

definition stores :: "rvalue \<Rightarrow> string \<Rightarrow> uint64 \<Rightarrow> bool" where
  "stores obj name v \<longleftrightarrow> (\<exists>n. attr_of obj name = Some (VInt n) \<and> uint v = n mod 2 ^ 64)"

lemma funcall_attr: "rb_funcall0 obj name = (case attr_of obj name of None \<Rightarrow> rb_raise NoMethodError | Some v \<Rightarrow> Inr v)"
  by (cases obj) (simp_all add: attr_of_def)

lemma field_cases:
  obtains (bad) c where "uint64_problem (attr_of obj name) = Some c" "quic_get_uint64_field obj name = rb_raise c"
  | (good) v where "uint64_problem (attr_of obj name) = None" "quic_get_uint64_field obj name = Inr v" "stores obj name v"
proof (cases "attr_of obj name")
  case None
  with that(1) show ?thesis by (simp add: quic_get_uint64_field_def funcall_attr uint64_problem_def)
next
  case a: (Some v)
  show ?thesis
  proof (cases v)
    case (VInt n)
    have u: "uint (word_of_int n :: uint64) = n mod 2 ^ 64" by (simp add: unsigned_of_int take_bit_eq_mod)
    show ?thesis
    proof (cases "n < - (2 ^ 63) \<or> 2 ^ 64 \<le> n")
      case True
      then have "\<not> (- (2 ^ 63) \<le> n \<and> n < 2 ^ 64)" by linarith
      with True a VInt show ?thesis
        by (intro that(1)) (simp_all add: quic_get_uint64_field_def funcall_attr uint64_problem_def)
    next
      case False
      then have "- (2 ^ 63) \<le> n \<and> n < 2 ^ 64" by linarith
      with False a VInt u show ?thesis
        by (intro that(2)) (simp_all add: quic_get_uint64_field_def funcall_attr uint64_problem_def stores_def)
    qed
  qed (use a that(1) in \<open>simp_all add: quic_get_uint64_field_def funcall_attr uint64_problem_def\<close>)
qed

lemma sequence_fields:
  "case List.map_filter (\<lambda>n. uint64_problem (attr_of obj n)) names of
     c # _ \<Rightarrow> sequenceE (map (quic_get_uint64_field obj) names) = rb_raise c
   | [] \<Rightarrow> \<exists>vs. sequenceE (map (quic_get_uint64_field obj) names) = Inr vs \<and> list_all2 (stores obj) names vs"
proof (induction names)
  case (Cons n ns)
  show ?case
  proof (cases obj n rule: field_cases)
    case (good v)
    with Cons show ?thesis by (auto simp: map_filter_simps split: list.splits)
  qed (simp add: map_filter_simps)
qed (simp add: map_filter_simps)

lemma fill_params_sequence:
  "map_sum id transport_param_values (quic_fill_transport_params X tp) =
   sequenceE (map (quic_get_uint64_field tp) transport_param_names)"
proof -
  have b: "map_sum id h (bindE m k) = bindE m (\<lambda>a. map_sum id h (k a))"
    for h :: "ngtcp2_transport_params \<Rightarrow> uint64 list" and m :: "exn + uint64" and k
    by (cases m) simp_all
  have c: "bindE (bindE m k) l = bindE m (\<lambda>a. bindE (k a) l)"
    for m :: "exn + uint64" and k :: "uint64 \<Rightarrow> exn + uint64 list" and l :: "uint64 list \<Rightarrow> exn + uint64 list"
    by (cases m) simp_all
  show ?thesis
    by (simp add: quic_fill_transport_params_def transport_param_names_def b c transport_param_values_def)
qed

text \<open>
  C32. Transport parameters reach ngtcp2 field by field, read as 64 bits. Going through the eight
  attributes in the order of the C struct: if one of them is missing (NoMethodError), is no
  Integer (TypeError) or lies outside \<open>-2^63 .. 2^64 - 1\<close> (RangeError), the first such attribute
  decides the exception; otherwise the call succeeds and the value stored under each name is the
  Integer of the attribute of that name, a negative one modulo \<open>2^64\<close>.
\<close>

theorem transport_params_faithful:
  "case List.map_filter (\<lambda>n. uint64_problem (attr_of tp n)) transport_param_names of
     c # _ \<Rightarrow> quic_fill_transport_params X tp = rb_raise c
   | [] \<Rightarrow> \<exists>p. quic_fill_transport_params X tp = Inr p \<and>
       list_all2 (stores tp) transport_param_names (transport_param_values p)"
  using sequence_fields [of tp transport_param_names] fill_params_sequence [of X tp]
  by (cases "quic_fill_transport_params X tp") (auto split: list.splits)

definition setting_names :: "string list" where
  "setting_names = [''initial_rtt'', ''max_window'', ''max_stream_window'', ''handshake_timeout'']"

definition setting_values :: "ngtcp2_settings \<Rightarrow> uint64 list" where
  "setting_values s = [initial_rtt s, max_window s, max_stream_window s, handshake_timeout s]"

text \<open>The congestion control algorithms by name, and what is wrong with an attribute that names one.\<close>

definition cc_algos :: "ngtcp2_consts \<Rightarrow> (string \<times> uint32) list" where
  "cc_algos K = [(''reno'', CC_ALGO_RENO K), (''cubic'', CC_ALGO_CUBIC K), (''bbr'', CC_ALGO_BBR K)]"

definition cc_problem :: "rvalue option \<Rightarrow> exn_class option" where
  "cc_problem v = (case v of None \<Rightarrow> Some NoMethodError
     | Some (VSym s) \<Rightarrow> if s \<in> {''reno'', ''cubic'', ''bbr''} then None else Some ArgumentError
     | Some _ \<Rightarrow> Some TypeError)"

definition settings_problems :: "rvalue \<Rightarrow> exn_class list" where
  "settings_problems st = List.map_filter id
     (cc_problem (attr_of st ''cc_algo'') # map (\<lambda>n. uint64_problem (attr_of st n)) setting_names @
      [if attr_of st ''no_pmtud'' = None then Some NoMethodError else None])"

lemma cc_cases:
  obtains (bad) c where "cc_problem (attr_of st ''cc_algo'') = Some c"
      "bindE (rb_funcall0 st ''cc_algo'') (quic_cc_algo_from_sym K) = rb_raise c"
  | (good) s a where "cc_problem (attr_of st ''cc_algo'') = None" "attr_of st ''cc_algo'' = Some (VSym s)"
      "(s, a) \<in> set (cc_algos K)" "bindE (rb_funcall0 st ''cc_algo'') (quic_cc_algo_from_sym K) = Inr a"
proof (cases "attr_of st ''cc_algo''")
  case None
  with that(1) show ?thesis by (simp add: funcall_attr cc_problem_def)
next
  case a: (Some v)
  show ?thesis
  proof (cases v)
    case (VSym s)
    consider "s = ''reno''" | "s = ''cubic''" | "s = ''bbr''" | "s \<notin> {''reno'', ''cubic'', ''bbr''}" by blast
    then show ?thesis
      using a VSym that by cases (simp_all add: funcall_attr cc_problem_def quic_cc_algo_from_sym_def cc_algos_def)
  qed (use a that(1) in \<open>simp_all add: funcall_attr cc_problem_def quic_cc_algo_from_sym_def\<close>)
qed

text \<open>
  C33. Settings reach ngtcp2 field by field. The clock is read first. Then, in the order of the C
  code, the first attribute that is missing, of the wrong type, out of range, or an unknown
  algorithm name (ArgumentError) decides the exception; if there is none, the call succeeds:
  \<open>initial_ts\<close> is the clock reading in nanoseconds, \<open>:reno\<close>, \<open>:cubic\<close> and \<open>:bbr\<close> select the constant
  of that name, every number is the Integer of its attribute and \<open>no_pmtud\<close> is 0 exactly for nil
  and false.
\<close>

theorem settings_faithful:
  "(case settings_problems st of
      c # _ \<Rightarrow> fst (quic_fill_settings X st x) = rb_raise c
    | [] \<Rightarrow> \<exists>s name v. fst (quic_fill_settings X st x) = Inr s \<and>
        initial_ts s = word_of_int (fst (fst (x_clock_gettime X x))) * NGTCP2_SECONDS (consts_of X) +
          word_of_int (snd (fst (x_clock_gettime X x))) \<and>
        attr_of st ''cc_algo'' = Some (VSym name) \<and> (name, cc_algo s) \<in> set (cc_algos (consts_of X)) \<and>
        list_all2 (stores st) setting_names (setting_values s) \<and>
        attr_of st ''no_pmtud'' = Some v \<and> no_pmtud s = (if v \<in> {VNil, VBool False} then 0 else 1)) \<and>
   snd (quic_fill_settings X st x) = snd (x_clock_gettime X x)"
proof -
  obtain sec nsec x' where clock: "x_clock_gettime X x = ((sec, nsec), x')" by (metis prod.collapse)
  have now: "quic_now X x = (word_of_int sec * NGTCP2_SECONDS (consts_of X) + word_of_int nsec, x')"
    by (simp add: quic_now_def clock)
  show ?thesis
    by (cases st "consts_of X" rule: cc_cases; cases st "''initial_rtt''" rule: field_cases;
        cases st "''max_window''" rule: field_cases; cases st "''max_stream_window''" rule: field_cases;
        cases st "''handshake_timeout''" rule: field_cases; cases "attr_of st ''no_pmtud''")
      (simp_all add: quic_fill_settings_def now clock settings_problems_def setting_names_def setting_values_def
        map_filter_simps funcall_attr RTEST_def)
qed

section \<open>Ownership of library objects\<close>

text \<open>
  What the libraries document about their objects. \<open>live\<close> is the set of objects that exist
  behind the calls: a constructor adds the object it returns, which was not there before, or
  nothing when it fails; a destructor removes its object if that object is alive, and what it does
  when called with a pointer to an object that is not (a double free) is undefined: nothing is
  assumed about it. The other calls made while opening neither create nor destroy any.
\<close>

datatype resource = SSL_CTX_obj nat | SSL_obj nat | Conn_obj nat

definition handle_set :: "(nat \<Rightarrow> resource) \<Rightarrow> nat option \<Rightarrow> resource set" where
  "handle_set f h = (case h of None \<Rightarrow> {} | Some p \<Rightarrow> {f p})"

definition creates :: "('x \<Rightarrow> resource set) \<Rightarrow> (nat \<Rightarrow> resource) \<Rightarrow> nat option \<Rightarrow> 'x \<Rightarrow> 'x \<Rightarrow> bool" where
  "creates live f h x x' \<longleftrightarrow> live x' = live x \<union> handle_set f h \<and> handle_set f h \<inter> live x = {}"

definition constructors_contract :: "'x ext \<Rightarrow> ('x \<Rightarrow> resource set) \<Rightarrow> bool" where
  "constructors_contract X live \<longleftrightarrow>
     (\<forall>x h x'. x_SSL_CTX_new X x = (h, x') \<longrightarrow> creates live SSL_CTX_obj h x x') \<and>
     (\<forall>ctx x h x'. x_SSL_new X ctx x = (h, x') \<longrightarrow> creates live SSL_obj h x x') \<and>
     (\<forall>d s p ver se tp x rv h x'. x_client_new X d s p ver se tp x = ((rv, h), x') \<longrightarrow>
        creates live Conn_obj h x x' \<and> (rv = 0 \<longleftrightarrow> h \<noteq> None))"

definition destructors_contract :: "'x ext \<Rightarrow> ('x \<Rightarrow> resource set) \<Rightarrow> bool" where
  "destructors_contract X live \<longleftrightarrow>
     (\<forall>h x. SSL_CTX_obj h \<in> live x \<longrightarrow> live (x_SSL_CTX_free X h x) = live x - {SSL_CTX_obj h}) \<and>
     (\<forall>h x. SSL_obj h \<in> live x \<longrightarrow> live (x_SSL_free X h x) = live x - {SSL_obj h}) \<and>
     (\<forall>h x. Conn_obj h \<in> live x \<longrightarrow> live (x_conn_del X h x) = live x - {Conn_obj h})"

definition neutral_contract :: "'x ext \<Rightarrow> ('x \<Rightarrow> resource set) \<Rightarrow> bool" where
  "neutral_contract X live \<longleftrightarrow>
     (\<forall>x. live (snd (x_crypto_init X x)) = live x \<and> live (snd (x_clock_gettime X x)) = live x) \<and>
     (\<forall>h x. live (snd (x_configure_client_context X h x)) = live x \<and>
        live (x_SSL_set_connect_state X h x) = live x \<and> live (x_SSL_set_app_data X h x) = live x) \<and>
     (\<forall>h d x. live (x_SSL_set_tlsext_host_name X h d x) = live x) \<and>
     (\<forall>h d n x. live (snd (x_SSL_set_alpn_protos X h d n x)) = live x) \<and>
     (\<forall>n x. live (snd (x_RAND_bytes X n x)) = live x) \<and>
     (\<forall>h s x. live (x_set_tls_native_handle X h s x) = live x)"

definition resource_contract :: "'x ext \<Rightarrow> ('x \<Rightarrow> resource set) \<Rightarrow> bool" where
  "resource_contract X live \<longleftrightarrow> constructors_contract X live \<and> destructors_contract X live \<and> neutral_contract X live"

definition resources_of :: "quic_client_t \<Rightarrow> resource set" where
  "resources_of c = handle_set SSL_CTX_obj (ssl_ctx c) \<union> handle_set SSL_obj (ssl c) \<union> handle_set Conn_obj (conn c)"

text \<open>
  \<open>built\<close>: the new object is \<open>c\<close>, and what was created since the start is exactly what \<open>c\<close> holds.
\<close>

definition built :: "('x \<Rightarrow> resource set) \<Rightarrow> resource set \<Rightarrow> quic_client_t \<Rightarrow> 'x open_st \<Rightarrow> bool" where
  "built live L c st \<longleftrightarrow> self_obj st = Some c \<and> quic_crypto_initialized st \<and>
     live (o_ext st) = L \<union> resources_of c \<and> resources_of c \<inter> L = {}"

definition owned :: "('x \<Rightarrow> resource set) \<Rightarrow> resource set \<Rightarrow> 'x open_st \<Rightarrow> bool" where
  "owned live L st \<longleftrightarrow> (case self_obj st of None \<Rightarrow> live (o_ext st) = L | Some c \<Rightarrow> built live L c st)"

lemma built_owned: "built live L c st \<Longrightarrow> owned live L st"
  by (simp add: owned_def built_def)

lemmas handle_simps = handle_set_def resources_of_def creates_def free_handle_def upd_self_def

lemma free_releases:
  assumes "resource_contract X live" "built live L c st"
  shows "live (quic_client_free X c (o_ext st)) = L"
  using assms
  by (cases "conn c"; cases "ssl c"; cases "ssl_ctx c")
    (auto simp: quic_client_free_def resource_contract_def destructors_contract_def built_def handle_simps)

lemma built_neutral: "built live L c st \<Longrightarrow> live x' = live (o_ext st) \<Longrightarrow> built live L c (st\<lparr>o_ext := x'\<rparr>)"
  by (simp add: built_def)

lemma built_upd: "built live L c st \<Longrightarrow> resources_of (f c) = resources_of c \<Longrightarrow> built live L (f c) (upd_self f st)"
  by (simp add: built_def upd_self_def)

lemma built_create:
  "built live L c st \<Longrightarrow> creates live g h (o_ext st) x' \<Longrightarrow> resources_of (f c) = resources_of c \<union> handle_set g h \<Longrightarrow>
   built live L (f c) (upd_self f (st\<lparr>o_ext := x'\<rparr>))"
  by (auto simp: built_def upd_self_def creates_def)

text \<open>The stages, one triple each.\<close>

lemma crypto_init_stage:
  assumes "resource_contract X live"
  shows "triple (\<lambda>st. self_obj st = None \<and> live (o_ext st) = L) (open_crypto_init X)
    (\<lambda>_ st. self_obj st = None \<and> live (o_ext st) = L \<and> quic_crypto_initialized st) (\<lambda>_. owned live L)"
proof (rule tripleI)
  fix st r st'
  assume "self_obj st = None \<and> live (o_ext st) = L" "open_crypto_init X st = (r, st')"
  moreover obtain rv x' where c: "x_crypto_init X (o_ext st) = (rv, x')" by (cases "x_crypto_init X (o_ext st)")
  moreover have "live (snd (x_crypto_init X (o_ext st))) = live (o_ext st)"
    using assms by (simp add: resource_contract_def neutral_contract_def)
  ultimately show "case r of Inl e \<Rightarrow> owned live L st'
      | Inr a \<Rightarrow> self_obj st' = None \<and> live (o_ext st') = L \<and> quic_crypto_initialized st'"
    by (auto simp: open_crypto_init_def owned_def split: if_splits)
qed

lemma alloc_stage:
  "triple (\<lambda>st. self_obj st = None \<and> live (o_ext st) = L \<and> quic_crypto_initialized st) (open_alloc X self)
    (\<lambda>_. built live L ((quic_client_alloc (consts_of X))\<lparr>owner := self\<rparr>)) (\<lambda>_. owned live L)"
  by (simp add: triple_def open_alloc_def built_def quic_client_alloc_def handle_simps)

lemma ssl_ctx_stage:
  assumes X: "resource_contract X live" and c: "ssl_ctx c = None"
  shows "triple (built live L c) (open_ssl_ctx X) (\<lambda>ctx. built live L (c\<lparr>ssl_ctx := Some ctx\<rparr>)) (\<lambda>_. owned live L)"
proof (rule tripleI)
  fix st r st'
  assume b: "built live L c st" and o: "open_ssl_ctx X st = (r, st')"
  obtain h x1 where n: "x_SSL_CTX_new X (o_ext st) = (h, x1)" by (cases "x_SSL_CTX_new X (o_ext st)")
  then have "creates live SSL_CTX_obj h (o_ext st) x1"
    using X unfolding resource_contract_def constructors_contract_def by blast
  then have b1: "built live L (c\<lparr>ssl_ctx := h\<rparr>) (upd_self (\<lambda>c. c\<lparr>ssl_ctx := h\<rparr>) (st\<lparr>o_ext := x1\<rparr>))"
    using b c by (intro built_create) (auto simp: handle_simps)
  show "case r of Inl e \<Rightarrow> owned live L st' | Inr ctx \<Rightarrow> built live L (c\<lparr>ssl_ctx := Some ctx\<rparr>) st'"
  proof (cases h)
    case None
    with o n built_owned [OF b1] show ?thesis by (auto simp: open_ssl_ctx_def)
  next
    case (Some ctx)
    obtain rv x2 where k: "x_configure_client_context X ctx x1 = (rv, x2)" by (cases "x_configure_client_context X ctx x1")
    have "live (snd (x_configure_client_context X ctx x1)) = live x1"
      using X by (simp add: resource_contract_def neutral_contract_def)
    with k have "built live L (c\<lparr>ssl_ctx := h\<rparr>) (upd_self (\<lambda>c. c\<lparr>ssl_ctx := h\<rparr>) (st\<lparr>o_ext := x1\<rparr>)\<lparr>o_ext := x2\<rparr>)"
      by (intro built_neutral [OF b1]) (simp add: upd_self_def)
    with o n k Some built_owned show ?thesis by (fastforce simp: open_ssl_ctx_def split: if_splits)
  qed
qed

lemma ssl_stage:
  assumes X: "resource_contract X live" and c: "ssl c = None"
  shows "triple (built live L c) (open_ssl X ctx name) (\<lambda>s. built live L (c\<lparr>ssl := Some s\<rparr>)) (\<lambda>_. owned live L)"
proof (rule tripleI)
  fix st r st'
  assume b: "built live L c st" and o: "open_ssl X ctx name st = (r, st')"
  obtain h x1 where n: "x_SSL_new X ctx (o_ext st) = (h, x1)" by (cases "x_SSL_new X ctx (o_ext st)")
  then have "creates live SSL_obj h (o_ext st) x1"
    using X unfolding resource_contract_def constructors_contract_def by blast
  then have b1: "built live L (c\<lparr>ssl := h\<rparr>) (upd_self (\<lambda>c. c\<lparr>ssl := h\<rparr>) (st\<lparr>o_ext := x1\<rparr>))"
    using b c by (intro built_create) (auto simp: handle_simps)
  have "live (x_SSL_set_tlsext_host_name X s nm (x_SSL_set_connect_state X s x1)) = live x1" for s nm
    using X by (simp add: resource_contract_def neutral_contract_def)
  then have b2: "built live L (c\<lparr>ssl := h\<rparr>) (upd_self (\<lambda>c. c\<lparr>ssl := h\<rparr>) (st\<lparr>o_ext := x1\<rparr>)
      \<lparr>o_ext := x_SSL_set_tlsext_host_name X s nm (x_SSL_set_connect_state X s x1)\<rparr>)" for s nm
    by (intro built_neutral [OF b1]) (simp add: upd_self_def)
  show "case r of Inl e \<Rightarrow> owned live L st' | Inr s \<Rightarrow> built live L (c\<lparr>ssl := Some s\<rparr>) st'"
    using o n built_owned [OF b1] b2 by (auto simp: open_ssl_def Let_def split: option.splits)
qed

text \<open>A stage that only calls neutral functions.\<close>

lemma neutral_stage:
  assumes "\<And>st r st'. m st = (r, st') \<Longrightarrow> \<exists>x'. st' = st\<lparr>o_ext := x'\<rparr> \<and> live x' = live (o_ext st)"
  shows "triple (built live L c) m (\<lambda>_. built live L c) (\<lambda>_. owned live L)"
proof (rule tripleI)
  fix st r st'
  assume b: "built live L c st" and "m st = (r, st')"
  then obtain x' where "st' = st\<lparr>o_ext := x'\<rparr>" "live x' = live (o_ext st)" using assms by blast
  then have "built live L c st'" using built_neutral [OF b] by simp
  then show "case r of Inl e \<Rightarrow> owned live L st' | Inr a \<Rightarrow> built live L c st'"
    using built_owned by (cases r) auto
qed

lemma alpn_stage:
  assumes X: "resource_contract X live"
  shows "triple (built live L c) (open_alpn X s se) (\<lambda>_. built live L c) (\<lambda>_. owned live L)"
proof (rule neutral_stage)
  fix st r st'
  assume o: "open_alpn X s se st = (r, st')"
  have n: "live x' = live x" if "x_SSL_set_alpn_protos X s wire n x = (rv, x')" for wire n x rv x'
    using X that unfolding resource_contract_def neutral_contract_def by (metis snd_conv)
  have "st' = st \<or> (\<exists>x'. st' = st\<lparr>o_ext := x'\<rparr> \<and> live x' = live (o_ext st))"
    using o by (auto simp: open_alpn_def Let_def split: sum.splits if_splits prod.splits dest: n)
  then show "\<exists>x'. st' = st\<lparr>o_ext := x'\<rparr> \<and> live x' = live (o_ext st)"
    by (elim disjE exE) (auto intro: exI [of _ "o_ext st"])
qed

lemma settings_stage:
  assumes X: "resource_contract X live"
  shows "triple (built live L c) (open_settings X se) (\<lambda>_. built live L c) (\<lambda>_. owned live L)"
proof (rule neutral_stage)
  fix st r st'
  assume o: "open_settings X se st = (r, st')"
  have "live (snd (x_clock_gettime X x)) = live x" for x
    using X by (simp add: resource_contract_def neutral_contract_def)
  with o show "\<exists>x'. st' = st\<lparr>o_ext := x'\<rparr> \<and> live x' = live (o_ext st)"
    by (auto simp: open_settings_def quic_fill_settings_def quic_now_def split: prod.splits) (metis snd_conv)
qed

lemma conn_ref_stage:
  assumes X: "resource_contract X live"
  shows "triple (built live L c) (open_conn_ref X s) (\<lambda>_. built live L (c\<lparr>conn_ref := True\<rparr>)) (\<lambda>_. owned live L)"
proof (rule tripleI)
  fix st r st'
  assume b: "built live L c st" and o: "open_conn_ref X s st = (r, st')"
  have "live (x_SSL_set_app_data X s (o_ext st)) = live (o_ext st)"
    using X by (simp add: resource_contract_def neutral_contract_def)
  from built_upd [OF built_neutral [OF b this], of "\<lambda>c. c\<lparr>conn_ref := True\<rparr>"] o
  show "case r of Inl e \<Rightarrow> owned live L st' | Inr a \<Rightarrow> built live L (c\<lparr>conn_ref := True\<rparr>) st'"
    by (auto simp: open_conn_ref_def resources_of_def)
qed

text \<open>Both connection ids are drawn the same way; \<open>upd\<close> is the assignment to one of them.\<close>

lemma rand_stage:
  assumes X: "resource_contract X live" and upd: "\<And>bs. resources_of (upd bs c) = resources_of c"
    and m: "\<And>st. m st = (case x_RAND_bytes X 8 (o_ext st) of ((rv, bs), x1) \<Rightarrow>
      (if rv \<noteq> 1 then rb_raise RuntimeError else Inr (), upd_self (upd bs) (st\<lparr>o_ext := x1\<rparr>)))"
  shows "triple (built live L c) m (\<lambda>_ st. \<exists>bs. built live L (upd bs c) st) (\<lambda>_. owned live L)"
proof (rule tripleI)
  fix st r st'
  assume b: "built live L c st" and o: "m st = (r, st')"
  obtain rv bs x1 where k: "x_RAND_bytes X 8 (o_ext st) = ((rv, bs), x1)" by (metis prod.collapse)
  have "live (snd (x_RAND_bytes X 8 (o_ext st))) = live (o_ext st)"
    using X by (simp add: resource_contract_def neutral_contract_def)
  with k have "built live L (upd bs c) (upd_self (upd bs) (st\<lparr>o_ext := x1\<rparr>))"
    by (intro built_upd built_neutral [OF b] upd) simp
  with o k show "case r of Inl e \<Rightarrow> owned live L st' | Inr a \<Rightarrow> \<exists>bs. built live L (upd bs c) st'"
    by (auto simp: m split: if_splits intro: built_owned)
qed

lemma conn_stage:
  assumes X: "resource_contract X live" and c: "conn c = None"
  shows "triple (built live L c) (open_conn X s pth se tp) (\<lambda>_ st. \<exists>h. built live L (c\<lparr>conn := Some h\<rparr>) st) (\<lambda>_. owned live L)"
proof (rule tripleI)
  fix st r st'
  assume b: "built live L c st" and o: "open_conn X s pth se tp st = (r, st')"
  obtain rv h x1 where n: "x_client_new X (cid_bytes (dcid c)) (cid_bytes (scid c)) pth (PROTO_VER_V1 (consts_of X))
      se tp (o_ext st) = ((rv, h), x1)" by (metis prod.collapse)
  then have k: "creates live Conn_obj h (o_ext st) x1" "rv = 0 \<longleftrightarrow> h \<noteq> None"
    using X unfolding resource_contract_def constructors_contract_def by blast+
  have b1: "built live L (c\<lparr>conn := h\<rparr>) (upd_self (\<lambda>c. c\<lparr>conn := h\<rparr>) (st\<lparr>o_ext := x1\<rparr>))"
    using b c k(1) by (intro built_create) (auto simp: handle_simps)
  have "live (x_set_tls_native_handle X p s x1) = live x1" for p
    using X by (simp add: resource_contract_def neutral_contract_def)
  then have "live (free_handle (\<lambda>p. x_set_tls_native_handle X p s) h x1) = live x1"
    by (simp add: free_handle_def split: option.splits)
  then have b2: "built live L (c\<lparr>conn := h\<rparr>) (upd_self (\<lambda>c. c\<lparr>conn := h\<rparr>) (st\<lparr>o_ext := x1\<rparr>)
      \<lparr>o_ext := free_handle (\<lambda>p. x_set_tls_native_handle X p s) h x1\<rparr>)"
    by (intro built_neutral [OF b1]) (simp add: upd_self_def)
  have "self_obj st = Some c" using b by (simp add: built_def)
  with o n k(2) b2 built_owned [OF b1]
  show "case r of Inl e \<Rightarrow> owned live L st' | Inr a \<Rightarrow> \<exists>h. built live L (c\<lparr>conn := Some h\<rparr>) st'"
    by (auto simp: open_conn_def Let_def quic_raise_ngtcp2_error_def split: if_splits)
qed

text \<open>The complete object: what the last stage relies on and what the client keeps.\<close>

definition complete :: "nat \<Rightarrow> quic_client_t \<Rightarrow> bool" where
  "complete self c \<longleftrightarrow> conn c \<noteq> None \<and> ssl c \<noteq> None \<and> ssl_ctx c \<noteq> None \<and> owner c = self \<and> conn_ref c \<and>
     datalen (scid c) = 8 \<and> datalen (dcid c) = 8"

lemma done_stage:
  assumes "complete self c"
  shows "triple (built live L c) open_done
    (\<lambda>w st. client_init w \<and> ext_st w = o_ext st \<and> (\<exists>c. built live L c st \<and> complete self c)) (\<lambda>_. owned live L)"
  using assms by (auto simp: triple_def open_done_def client_init_def)

lemma open_stages:
  assumes X: "resource_contract X live"
  shows "triple (\<lambda>st. self_obj st = None \<and> live (o_ext st) = L) (quic_client_open X self args)
    (\<lambda>w st. client_init w \<and> ext_st w = o_ext st \<and> (\<exists>c. built live L c st \<and> complete self c)) (\<lambda>_. owned live L)"
  unfolding quic_client_open_def
proof (rule triple_bind [where Q = "\<lambda>_ st. self_obj st = None \<and> live (o_ext st) = L"])
  show "triple (\<lambda>st. self_obj st = None \<and> live (o_ext st) = L) (liftE (open_keywords args))
      (\<lambda>_ st. self_obj st = None \<and> live (o_ext st) = L) (\<lambda>_. owned live L)"
    by (auto simp: triple_liftE owned_def split: sum.splits)
next
  fix kw
  let ?c0 = "(quic_client_alloc (consts_of X))\<lparr>owner := self\<rparr>"
  have tp: "triple (built live L c) (liftE (quic_fill_transport_params X (transport_params kw)))
      (\<lambda>_. built live L c) (\<lambda>_. owned live L)" for c
    by (auto simp: triple_liftE intro: built_owned split: sum.splits)
  have scid_st: "triple (built live L c) (open_scid X)
      (\<lambda>_ st. \<exists>bs. built live L (c\<lparr>scid := rand_cid bs (scid c)\<rparr>) st) (\<lambda>_. owned live L)" for c
    by (rule rand_stage [OF X, where upd = "\<lambda>bs c. c\<lparr>scid := rand_cid bs (scid c)\<rparr>"])
      (simp_all add: resources_of_def open_scid_def)
  have dcid_st: "triple (built live L c) (open_dcid X)
      (\<lambda>_ st. \<exists>bs. built live L (c\<lparr>dcid := rand_cid bs (dcid c)\<rparr>) st) (\<lambda>_. owned live L)" for c
    by (rule rand_stage [OF X, where upd = "\<lambda>bs c. c\<lparr>dcid := rand_cid bs (dcid c)\<rparr>"])
      (simp_all add: resources_of_def open_dcid_def)
  show "triple (\<lambda>st. self_obj st = None \<and> live (o_ext st) = L)
     (bindW (open_crypto_init X) (\<lambda>_. bindW (open_alloc X self) (\<lambda>_. bindW (open_ssl_ctx X) (\<lambda>ctx.
      bindW (open_ssl X ctx (server_name kw)) (\<lambda>s. bindW (open_alpn X s (settings_v kw)) (\<lambda>_.
      bindW (open_conn_ref X s) (\<lambda>_. bindW (open_scid X) (\<lambda>_. bindW (open_dcid X) (\<lambda>_.
      bindW (open_settings X (settings_v kw)) (\<lambda>se.
      bindW (liftE (quic_fill_transport_params X (transport_params kw))) (\<lambda>params.
      bindW (open_conn X s (local_sockaddr kw, remote_sockaddr kw) se params) (\<lambda>_. open_done))))))))))))
     (\<lambda>w st. client_init w \<and> ext_st w = o_ext st \<and> (\<exists>c. built live L c st \<and> complete self c)) (\<lambda>_. owned live L)"
    by (intro triple_bind [OF crypto_init_stage [OF X]] triple_bind [OF alloc_stage]
        triple_bind [OF ssl_ctx_stage [OF X]] triple_bind [OF ssl_stage [OF X]] triple_bind [OF alpn_stage [OF X]]
        triple_bind [OF conn_ref_stage [OF X]] triple_bind [OF scid_st] triple_bind [OF dcid_st]
        triple_bind [OF settings_stage [OF X]] triple_bind [OF tp] triple_bind [OF conn_stage [OF X]]
        triple_ex done_stage)
      (simp_all add: quic_client_alloc_def complete_def rand_cid_def)
qed

text \<open>
  The outcome of \<open>_open\<close>: what was created is owned by the object that was allocated, and a client
  that is returned is complete and in its initial state.
\<close>

definition opened_or_owned :: "('x \<Rightarrow> resource set) \<Rightarrow> nat \<Rightarrow> resource set \<Rightarrow> exn + 'x client \<Rightarrow> 'x open_st \<Rightarrow> bool" where
  "opened_or_owned live self L r st \<longleftrightarrow> owned live L st \<and>
     (\<forall>w. r = Inr w \<longrightarrow> client_init w \<and> ext_st w = o_ext st \<and> (\<exists>c. self_obj st = Some c \<and> complete self c))"

lemma open_run:
  assumes X: "resource_contract X live" and st: "self_obj st = None" and out: "quic_client_open X self args st = (r, st')"
  shows "opened_or_owned live self (live (o_ext st)) r st'"
proof -
  have "case r of Inl e \<Rightarrow> owned live (live (o_ext st)) st'
      | Inr w \<Rightarrow> client_init w \<and> ext_st w = o_ext st' \<and> (\<exists>c. built live (live (o_ext st)) c st' \<and> complete self c)"
    using st by (intro triple_run [OF open_stages [OF X] _ out]) simp
  then show ?thesis by (cases r) (auto simp: opened_or_owned_def built_def owned_def)
qed

lemma owned_released:
  "resource_contract X live \<Longrightarrow> owned live L st \<Longrightarrow>
   live (case self_obj st of None \<Rightarrow> o_ext st | Some c \<Rightarrow> quic_client_free X c (o_ext st)) = L"
  using free_releases [of X live] by (auto simp: owned_def split: option.splits)

text \<open>
  C10. No library object is leaked or freed twice. Whatever \<open>_open\<close> does, return a client or raise
  at any of its stages, handing the object it allocated (if it got that far) to
  \<open>quic_client_free\<close> restores exactly the set of live library objects from before the call. The
  libraries may do anything when a destructor gets an object that is not alive, so the equation
  holds only because each object is freed once.
\<close>

theorem open_releases_resources:
  assumes X: "resource_contract X live" and "self_obj st = None"
    and out: "quic_client_open X self args st = (r, st')"
  shows "live (case self_obj st' of None \<Rightarrow> o_ext st' | Some c \<Rightarrow> quic_client_free X c (o_ext st')) = live (o_ext st)"
  using owned_released [OF X] open_run [OF assms] by (simp add: opened_or_owned_def)

text \<open>
  Libraries that keep the set of their live objects as state, one object of each kind at most. A
  double free corrupts the heap: afterwards everything seems alive.
\<close>

definition ledger_ext :: "resource set ext" where
  "ledger_ext = sample_ext\<lparr>
     x_SSL_CTX_new := (\<lambda>x. if SSL_CTX_obj 1 \<in> x then (None, x) else (Some 1, insert (SSL_CTX_obj 1) x)),
     x_SSL_new := (\<lambda>ctx x. if SSL_obj 2 \<in> x then (None, x) else (Some 2, insert (SSL_obj 2) x)),
     x_client_new := (\<lambda>d s p ver se tp x. if Conn_obj 3 \<in> x then ((-1, None), x) else ((0, Some 3), insert (Conn_obj 3) x)),
     x_conn_del := (\<lambda>h x. if Conn_obj h \<in> x then x - {Conn_obj h} else UNIV),
     x_SSL_free := (\<lambda>h x. if SSL_obj h \<in> x then x - {SSL_obj h} else UNIV),
     x_SSL_CTX_free := (\<lambda>h x. if SSL_CTX_obj h \<in> x then x - {SSL_CTX_obj h} else UNIV)\<rparr>"

lemma ledger_ext_contract: "resource_contract ledger_ext (\<lambda>x. x)"
proof -
  have "constructors_contract ledger_ext (\<lambda>x. x)"
    unfolding constructors_contract_def by (auto simp: ledger_ext_def creates_def handle_set_def split: if_splits)
  moreover have "destructors_contract ledger_ext (\<lambda>x. x)"
    by (simp add: destructors_contract_def ledger_ext_def)
  moreover have "neutral_contract ledger_ext (\<lambda>x. x)"
    by (simp add: neutral_contract_def ledger_ext_def sample_ext_def)
  ultimately show ?thesis by (simp add: resource_contract_def)
qed

definition sample_open_args :: "rvalue \<Rightarrow> call_args" where
  "sample_open_args se = \<lparr>positional = [], kwargs = Some [(''local_sockaddr'', VStr ASCII_8BIT [1]),
     (''remote_sockaddr'', VStr ASCII_8BIT [2]), (''server_name'', VStr UTF_8 [97]),
     (''transport_params'', transport_params_default), (''settings'', se)]\<rparr>"

definition sample_open_st :: "resource set open_st" where
  "sample_open_st = \<lparr>o_ext = {}, quic_crypto_initialized = False, self_obj = None\<rparr>"

lemmas open_stage_defs = quic_client_open_def bindW_def open_keywords_def open_crypto_init_def open_alloc_def
  open_ssl_ctx_def open_ssl_def open_alpn_def open_conn_ref_def open_scid_def open_dcid_def
  open_settings_def open_conn_def open_done_def upd_self_def rb_scan_args_def kw_aref_def NIL_P_def
  quic_require_binary_def quic_fill_settings_def quic_fill_transport_params_def
  quic_get_uint64_field_def quic_cc_algo_from_sym_def quic_now_def quic_client_alloc_def

text \<open>A congestion control name that does not exist: the call raises after TLS was set up.\<close>

definition bad_settings :: rvalue where
  "bad_settings = VData [(''cc_algo'', VSym ''vegas''), (''alpn'', VArr [])]"

theorem open_releases_resources_witness:
  "\<exists>st' c. quic_client_open ledger_ext 5 (sample_open_args bad_settings) sample_open_st = (rb_raise ArgumentError, st') \<and>
     self_obj st' = Some c \<and> o_ext st' = {SSL_CTX_obj 1, SSL_obj 2} \<and> quic_client_free ledger_ext c (o_ext st') = {}"
proof -
  obtain st' where o: "quic_client_open ledger_ext 5 (sample_open_args bad_settings) sample_open_st = (rb_raise ArgumentError, st')"
    and c: "self_obj st' \<noteq> None" and x: "o_ext st' = {SSL_CTX_obj 1, SSL_obj 2}"
    by (simp add: open_stage_defs sample_open_args_def bad_settings_def transport_params_default_def
        sample_open_st_def ledger_ext_def sample_ext_def insert_commute)
  from open_releases_resources [OF ledger_ext_contract _ o] c x o show ?thesis
    by (auto simp: sample_open_st_def)
qed

text \<open>
  A client that was opened is complete: the crypto library is initialised, connection, TLS
  session and TLS context exist, both connection ids are 8 bytes long, the struct points back
  at its owner, and the Ruby object is in the initial state (no streams, empty queue, no
  socket) from which the client's state machine runs.
\<close>

theorem open_success:
  assumes X: "resource_contract X live" and "self_obj st = None"
    and out: "quic_client_open X self args st = (Inr w, st')"
  shows "client_init w \<and> ext_st w = o_ext st' \<and> quic_crypto_initialized st' \<and>
    (\<exists>c. self_obj st' = Some c \<and> complete self c \<and> quic_client_get_conn c = quic_client_conn c)"
proof -
  from open_run [OF assms] obtain c where "client_init w" "ext_st w = o_ext st'" "self_obj st' = Some c" "complete self c"
    "built live (live (o_ext st)) c st'" by (auto simp: opened_or_owned_def owned_def)
  then show ?thesis by (auto simp: built_def quic_client_get_conn_def quic_client_conn_def)
qed

theorem open_success_witness:
  "\<exists>w st'. quic_client_open ledger_ext 5 (sample_open_args settings_default) sample_open_st = (Inr w, st') \<and> client_init w"
proof -
  obtain w st' where o: "quic_client_open ledger_ext 5 (sample_open_args settings_default) sample_open_st = (Inr w, st')"
    by (simp add: open_stage_defs sample_open_args_def settings_default_def transport_params_default_def
        sample_open_st_def ledger_ext_def sample_ext_def)
  from open_success [OF ledger_ext_contract _ o] o show ?thesis by (simp add: sample_open_st_def)
qed

end
