(* ===== verification/Client_Properties.thy ===== *)
theory Client_Properties
  imports Client_Invariants
begin

unbundle bit_operations_syntax

text \<open>
  What every run of a client guarantees: the invariant of every reachable state, what is never
  taken back, which stream is selected for sending, and what \<open>write_pkt\<close> does with its buffer and
  with the client. The concrete clients at the start serve as examples.
\<close>

section \<open>A concrete client\<close>

definition sample_client :: "unit client" where
  "sample_client = \<lparr>ext_st = (), heap = Map.empty, next_ref = 0, streams = [], accept_queue = [], sock = None,
     iv_pump_local_sockaddr = None, iv_pump_remote_sockaddr = None\<rparr>"

text \<open>The same client after the peer opened stream 1 and sent two bytes on it.\<close>

definition sample_events :: "ngtcp2_event list" where
  "sample_events = [Stream_open 1, Recv_stream_data 0 1 0 [7, 8]]"

definition sample_stream :: stream where
  "sample_stream = (quic_stream_new 1 True)\<lparr>accept_queued := True, recv_buffer := [7, 8]\<rparr>"

definition sample_client2 :: "unit client" where
  "sample_client2 = \<lparr>ext_st = (), heap = [0 \<mapsto> sample_stream], next_ref = 1, streams = [(1, 0)],
     accept_queue = [0], sock = None,
     iv_pump_local_sockaddr = None, iv_pump_remote_sockaddr = None\<rparr>"

definition sample_ext2 :: "unit ext" where
  "sample_ext2 = sample_ext\<lparr>x_read_pkt := (\<lambda>p pkt ts x. ((0, sample_events), x))\<rparr>"

definition sample_read_args :: call_args where
  "sample_read_args = \<lparr>positional = [VStr ASCII_8BIT [1]],
     kwargs = Some [(''local_sockaddr'', VStr ASCII_8BIT [2]), (''remote_sockaddr'', VStr ASCII_8BIT [3])]\<rparr>"

lemma sample_client_init: "client_init sample_client"
  by (simp add: client_init_def sample_client_def)

lemma sample_ext2_writev: "writev_contract sample_ext2"
  by (auto simp: writev_contract_def sample_ext2_def sample_ext_def split: option.splits)

lemma sample_read_pkt:
  "quic_client_read_pkt sample_ext2 sample_read_args (False, sample_client) = (Inr (), False, sample_client2)"
  by (simp add: quic_client_read_pkt_def read_pkt_args_def rb_scan_args_def sample_read_args_def kw_aref_def
      NIL_P_def quic_require_binary_def rb_ensure_def quic_read_pkt_body_def quic_read_pkt_unlock_def
      quic_now_def sample_ext2_def sample_ext_def sample_events_def quic_stream_open_cb_def
      register_stream_def quic_recv_stream_data_cb_def quic_client_lookup_stream_def put_stream_def
      sample_client_def sample_client2_def sample_stream_def stream_recv_def LL2NUM_def ary_push_def
      sample_consts_def)

lemma sample_step: "client_step sample_ext2 sample_client sample_client2"
proof -
  have "client_step sample_ext2 sample_client
      (snd (snd (quic_client_read_pkt sample_ext2 sample_read_args (False, sample_client))))"
    by (rule client_step.st_read_pkt) (auto simp: sample_ext2_def sample_events_def)
  then show ?thesis by (simp add: sample_read_pkt)
qed

section \<open>Invariants of every run\<close>

text \<open>
  C3. In every state a client can reach, the registry maps each id to one live, open stream
  object with that id, every stream's counters are in range, the accept queue holds each
  object at most once, and only server-initiated streams are ever marked as queued.
\<close>

theorem client_invariant:
  assumes "client_init w0" "(client_step X)\<^sup>*\<^sup>* w0 w" "writev_contract X"
  shows "client_wf w"
  using cl.inv_reachable [OF assms(1,2)] assms(3) by simp

theorem client_invariant_witness:
  "client_init sample_client \<and> (client_step sample_ext2)\<^sup>*\<^sup>* sample_client sample_client2 \<and>
   writev_contract sample_ext2 \<and> client_wf sample_client2"
  using sample_client_init sample_step sample_ext2_writev
    client_invariant [OF sample_client_init r_into_rtranclp [of "client_step sample_ext2", OF sample_step] sample_ext2_writev]
  by blast

text \<open>
  C19. A server stream is handed out by \<open>accept_stream\<close> at most once: an object that was queued
  and has left the queue never enters it again, whatever data arrives on it later.
\<close>

theorem accepted_stream_not_requeued:
  assumes "client_init w0" "(client_step X)\<^sup>*\<^sup>* w0 w" "(client_step X)\<^sup>*\<^sup>* w w'" "writev_contract X"
    and "heap w r = Some s" "accept_queued s" "r \<notin> set (accept_queue w)"
  shows "r \<notin> set (accept_queue w')"
proof -
  have "client_wf w" using cl.inv_reachable [OF assms(1,2)] assms(4) by simp
  then have "client_le w w'"
    using mono.rel_run [OF assms(3)] assms(4) by (simp add: monotone_from_def advances_def)
  with assms(5-7) show ?thesis by (auto simp: client_le_def)
qed

theorem accepted_stream_not_requeued_witness:
  "(client_step sample_ext2)\<^sup>*\<^sup>* sample_client (sample_client2\<lparr>accept_queue := []\<rparr>) \<and>
   0 \<notin> set (accept_queue (snd (accept_stream_nonblock sample_client2)))"
proof -
  have a: "snd (accept_stream_nonblock sample_client2) = sample_client2\<lparr>accept_queue := []\<rparr>"
    by (simp add: accept_stream_nonblock_def sample_client2_def)
  have "client_step sample_ext2 sample_client2 (sample_client2\<lparr>accept_queue := []\<rparr>)"
    using client_step.st_accept [of sample_ext2 sample_client2] by (simp only: a)
  then have r: "(client_step sample_ext2)\<^sup>*\<^sup>* sample_client (sample_client2\<lparr>accept_queue := []\<rparr>)"
    using sample_step by (meson r_into_rtranclp rtranclp.rtrancl_into_rtrancl)
  have "0 \<notin> set (accept_queue (sample_client2\<lparr>accept_queue := []\<rparr>))"
    by (rule accepted_stream_not_requeued [OF sample_client_init r rtranclp.rtrancl_refl sample_ext2_writev, of 0 sample_stream])
      (simp_all add: sample_client2_def sample_stream_def)
  with r a show ?thesis by simp
qed

section \<open>Choosing what to send\<close>

lemma pick_loop_None: "pick_loop K hp rs = None \<longleftrightarrow> (\<forall>r \<in> set rs. \<forall>s. hp r = Some s \<longrightarrow> stream_pick K s = None)"
  by (induction K hp rs rule: pick_loop.induct) (auto split: option.splits)

lemma pick_loop_first:
  "pick_loop K hp rs = Some p \<Longrightarrow>
   \<exists>before after. rs = before @ pk_ref p # after \<and>
     (\<forall>r \<in> set before. \<forall>s. hp r = Some s \<longrightarrow> stream_pick K s = None)"
proof (induction K hp rs rule: pick_loop.induct)
  case (2 K hp r rs)
  show ?case
  proof (cases "pick_loop K hp [r]")
    case None
    then have n: "\<forall>s. hp r = Some s \<longrightarrow> stream_pick K s = None" by (auto split: option.splits)
    with "2.prems" have "pick_loop K hp rs = Some p" by (auto split: option.splits)
    then obtain before after where "rs = before @ pk_ref p # after"
      "\<forall>r \<in> set before. \<forall>s. hp r = Some s \<longrightarrow> stream_pick K s = None"
      using "2.IH" n by (cases "hp r") auto
    with n show ?thesis by (intro exI [of _ "r # before"] exI [of _ after]) simp
  next
    case (Some q)
    with "2.prems" have "pk_ref p = r" by (auto split: option.splits)
    then show ?thesis by (intro exI [of _ "[]"] exI [of _ rs]) simp
  qed
qed simp

text \<open>The bytes of a stream that are queued and not yet handed to ngtcp2.\<close>

abbreviation unsent :: "stream \<Rightarrow> bytes" where
  "unsent s \<equiv> drop (send_pos s) (retained s)"

definition idle :: "stream \<Rightarrow> bool" where
  "idle s \<longleftrightarrow> unsent s = [] \<and> (fin_sent s \<longrightarrow> fin_flushed s)"

lemma stream_pick_idle: "stream_wf s \<Longrightarrow> stream_pick K s = None \<longleftrightarrow> idle s"
  using stream_pick_None [of s K] by (auto simp: idle_def stream_wf_def)

lemma registered_obj:
  assumes "client_wf w" "r \<in> set (hash_values (streams w))"
  obtains s where "heap w r = Some s" "stream_wf s" "\<not> closed s"
proof -
  have d: "distinct (map fst (streams w))" using assms(1) by (simp add: client_wf_def registry_wf_def)
  from assms(2) obtain k where "hash_aref (streams w) k = Some r" using hash.vals_aref [OF d] by auto
  with assms(1) obtain s where "heap w r = Some s" "\<not> closed s"
    unfolding client_wf_def registry_wf_def by blast
  with that client_wf_obj [OF assms(1)] show ?thesis by (auto simp: obj_wf_def)
qed

text \<open>
  C7. The scheduler. \<open>quic_client_pick_send_stream\<close> finds nothing exactly when no registered
  stream has unsent bytes or an unflushed FIN. Otherwise it selects the first such stream in
  registration order; the vector it offers is a non-empty prefix of that stream's unsent bytes,
  carrying FIN only if it is all of them and FIN was requested, or, when no byte is left, the
  pending FIN alone.
\<close>

theorem pick_send_stream_correct:
  assumes wf: "client_wf w"
  shows "case quic_client_pick_send_stream K w of
      None \<Rightarrow> \<forall>r \<in> set (hash_values (streams w)). \<forall>s. heap w r = Some s \<longrightarrow> idle s
    | Some p \<Rightarrow> \<exists>before after s. hash_values (streams w) = before @ pk_ref p # after \<and>
        (\<forall>r \<in> set before. \<forall>s. heap w r = Some s \<longrightarrow> idle s) \<and>
        heap w (pk_ref p) = Some s \<and> pk_sid p = stream_id s \<and> \<not> fin_flushed s \<and>
        (case pk_datav p of
           None \<Rightarrow> unsent s = [] \<and> fin_sent s \<and> pk_flags p = WRITE_STREAM_FLAG_FIN K
         | Some v \<Rightarrow> \<exists>rest. unsent s = v @ rest \<and> v \<noteq> [] \<and>
             (pk_flags p = 0 \<or> pk_flags p = WRITE_STREAM_FLAG_FIN K \<and> fin_sent s \<and> rest = []))"
proof -
  have pick: "stream_pick K s = None \<longleftrightarrow> idle s" if "heap w r = Some s" for r s
    using stream_pick_idle client_wf_obj [OF wf that] by (simp add: obj_wf_def)
  show ?thesis
  proof (cases "quic_client_pick_send_stream K w")
    case None
    then have "\<forall>r \<in> set (hash_values (streams w)). \<forall>s. heap w r = Some s \<longrightarrow> idle s"
      using pick by (auto simp: quic_client_pick_send_stream_def pick_loop_None)
    with None show ?thesis by simp
  next
    case (Some p)
    then have l: "pick_loop K (heap w) (hash_values (streams w)) = Some p"
      by (simp add: quic_client_pick_send_stream_def)
    obtain s where s: "heap w (pk_ref p) = Some s" "pk_sid p = stream_id s"
      "stream_pick K s = Some (pk_datav p, pk_flags p)"
      using pick_loop_Some [OF l] by blast
    have swf: "stream_wf s" using client_wf_obj [OF wf s(1)] by (simp add: obj_wf_def)
    obtain before after where b: "hash_values (streams w) = before @ pk_ref p # after"
      "\<forall>r \<in> set before. \<forall>s. heap w r = Some s \<longrightarrow> idle s"
      using pick_loop_first [OF l] pick by blast
    have "\<not> fin_flushed s \<and> (case pk_datav p of
           None \<Rightarrow> unsent s = [] \<and> fin_sent s \<and> pk_flags p = WRITE_STREAM_FLAG_FIN K
         | Some v \<Rightarrow> \<exists>rest. unsent s = v @ rest \<and> v \<noteq> [] \<and>
             (pk_flags p = 0 \<or> pk_flags p = WRITE_STREAM_FLAG_FIN K \<and> fin_sent s \<and> rest = []))"
      using stream_pick_data [OF swf] stream_pick_fin [OF swf] s(3)
      by (cases "pk_datav p") fastforce+
    with Some s b show ?thesis by auto
  qed
qed

lemma sample_client2_wf: "client_wf sample_client2"
  using cl.inv_reachable [OF sample_client_init r_into_rtranclp [of "client_step sample_ext2", OF sample_step]]
    sample_ext2_writev by simp

theorem pick_send_stream_correct_witness:
  "client_wf sample_client2 \<and> quic_client_pick_send_stream sample_consts sample_client2 = None \<and> idle sample_stream"
proof -
  have n: "quic_client_pick_send_stream sample_consts sample_client2 = None"
    by (simp add: quic_client_pick_send_stream_def sample_client2_def hash_values_def stream_pick_def sample_stream_def)
  have "heap sample_client2 0 = Some sample_stream" "0 \<in> set (hash_values (streams sample_client2))"
    by (simp_all add: sample_client2_def hash_values_def)
  with pick_send_stream_correct [OF sample_client2_wf, of sample_consts] sample_client2_wf n show ?thesis by auto
qed

section \<open>Writing packets\<close>

lemma prepare_buffer_capacity:
  "prepare_buffer K v = Inr (buf, capa) \<Longrightarrow> QUIC_WRITE_PKT_BUFLEN K \<le> capa \<and> length buf \<le> capa"
  by (cases v) (auto simp: prepare_buffer_def rb_str_modify_expand_def Let_def NIL_P_def split: if_splits)

lemma scan_opt1:
  "rb_scan_args 0 1 False \<lparr>positional = [v], kwargs = None\<rparr> = Inr ([v], None)"
  "rb_scan_args 0 1 False \<lparr>positional = [], kwargs = None\<rparr> = Inr ([VNil], None)"
  by (simp_all add: rb_scan_args_def)

text \<open>
  C22. What \<open>write_pkt\<close> does with its buffer. A String in another encoding than binary is refused
  with ArgumentError, anything else that is neither nil nor a String with TypeError, both with the
  buffer and the client untouched and ngtcp2 not called. A fresh buffer or a binary String gets room
  for at least \<open>QUIC_WRITE_PKT_BUFLEN\<close> bytes before ngtcp2 is told that destination length, so
  ngtcp2 never writes outside it; then the outcome follows ngtcp2's result \<open>n\<close>: a negative one raises
  the mapped error and empties the buffer, zero returns nil and empties it, a positive one returns
  exactly the \<open>n\<close> bytes of the packet.
\<close>

theorem write_pkt_buffer:
  assumes X: "writev_contract X"
    and args: "rb_scan_args 0 1 False args = Inr ([v], None)"
    and call: "writev_call X w = (ret, x')"
    and out: "quic_client_write_pkt X args w = (res, buffer, w')"
  shows "if v = VNil \<or> (\<exists>bs. v = VStr ASCII_8BIT bs)
    then \<exists>capa. prepare_buffer (consts_of X) v = Inr (case v of VStr enc bs \<Rightarrow> bs | _ \<Rightarrow> [], capa) \<and>
        QUIC_WRITE_PKT_BUFLEN (consts_of X) \<le> capa \<and>
        (if wv_n ret < 0 then res = quic_raise_ngtcp2_error (consts_of X) (c_int (wv_n ret)) \<and> buffer = Some []
         else if wv_n ret = 0 then res = Inr None \<and> buffer = Some []
         else res = Inr (Some (wv_packet ret)) \<and> buffer = Some (wv_packet ret) \<and>
           length (wv_packet ret) = nat (wv_n ret) \<and> length (wv_packet ret) \<le> capa)
    else res = rb_raise (if \<exists>enc bs. v = VStr enc bs then ArgumentError else TypeError) \<and> buffer = None \<and> w' = w"
proof (cases "v = VNil \<or> (\<exists>bs. v = VStr ASCII_8BIT bs)")
  case False
  then have "prepare_buffer (consts_of X) v = rb_raise (if \<exists>enc bs. v = VStr enc bs then ArgumentError else TypeError)"
    by (cases v) (simp_all add: prepare_buffer_def NIL_P_def Let_def)
  with False out args show ?thesis by (auto simp: quic_client_write_pkt_def)
next
  case True
  then obtain capa where b: "prepare_buffer (consts_of X) v = Inr (case v of VStr enc bs \<Rightarrow> bs | _ \<Rightarrow> [], capa)"
  proof
    assume "v = VNil"
    with that [of "QUIC_WRITE_PKT_BUFLEN (consts_of X)"] show thesis by (simp add: prepare_buffer_def NIL_P_def Let_def)
  next
    assume "\<exists>bs. v = VStr ASCII_8BIT bs"
    then obtain bs where "v = VStr ASCII_8BIT bs" ..
    with that [of "max (length bs) (QUIC_WRITE_PKT_BUFLEN (consts_of X))"] show thesis
      by (simp add: prepare_buffer_def NIL_P_def rb_str_modify_expand_def Let_def split: if_splits)
  qed
  have cap: "QUIC_WRITE_PKT_BUFLEN (consts_of X) \<le> capa" using prepare_buffer_capacity [OF b] by simp
  have "nat (wv_n ret) \<le> QUIC_WRITE_PKT_BUFLEN (consts_of X) \<and> length (wv_packet ret) = nat (wv_n ret)"
    if "0 < wv_n ret"
    using call that writev_contractD(2) [OF X] by (auto simp: writev_call_def Let_def split: prod.splits)
  with True b cap out args call show ?thesis
    by (auto simp: quic_client_write_pkt_def Let_def overlay_def split: if_splits)
qed

theorem write_pkt_buffer_witness:
  "quic_client_write_pkt sample_ext2 \<lparr>positional = [VStr UTF_8 []], kwargs = None\<rparr> sample_client2 =
     (rb_raise ArgumentError, None, sample_client2) \<and>
   fst (quic_client_write_pkt sample_ext2 \<lparr>positional = [], kwargs = None\<rparr> sample_client2) = Inr None"
proof -
  obtain ret x' where c: "writev_call sample_ext2 sample_client2 = (ret, x')" by (cases "writev_call sample_ext2 sample_client2")
  have n: "wv_n ret = 0"
    using c by (auto simp: writev_call_def Let_def sample_ext2_def sample_ext_def split: prod.splits)
  obtain r1 b1 w1 where o1: "quic_client_write_pkt sample_ext2 \<lparr>positional = [VStr UTF_8 []], kwargs = None\<rparr> sample_client2 = (r1, b1, w1)"
    by (metis prod.collapse)
  obtain r2 b2 w2 where o2: "quic_client_write_pkt sample_ext2 \<lparr>positional = [], kwargs = None\<rparr> sample_client2 = (r2, b2, w2)"
    by (metis prod.collapse)
  from write_pkt_buffer [OF sample_ext2_writev scan_opt1(1) c o1] write_pkt_buffer [OF sample_ext2_writev scan_opt1(2) c o2] n o1 o2
  show ?thesis by auto
qed

lemma stream_account_shape:
  "\<exists>b. stream_account K fl dv n pd s = s\<lparr>sent_offset := sent_offset s + of_nat (nat pd), fin_flushed := b\<rparr>"
proof (cases "0 < pd")
  case True
  then have "(word_of_int pd :: uint64) = of_nat (nat pd)" by simp
  with True show ?thesis
    by (cases s) (auto simp: stream_account_def Let_def)
next
  case False
  then show ?thesis by (cases s) (auto simp: stream_account_def Let_def)
qed

text \<open>
  \<open>write_pkt\<close> touches nothing but the stream it selected: registry, accept queue, socket
  and every other stream are as before, and of the selected stream at most \<open>sent_offset\<close> (by
  the number of bytes framed) and \<open>fin_flushed\<close> change (stated for a call in which ngtcp2
  invokes no callback).
\<close>

theorem write_pkt_frame:
  assumes call: "writev_call X w = (ret, x')" and noev: "wv_events ret = []"
    and out: "quic_client_write_pkt X args w = (res, buffer, w')"
  shows "streams w' = streams w \<and> accept_queue w' = accept_queue w \<and> sock w' = sock w \<and> next_ref w' = next_ref w \<and>
    (\<forall>r. heap w' r \<noteq> heap w r \<longrightarrow>
      (\<exists>p s b. quic_client_pick_send_stream (consts_of X) w = Some p \<and> r = pk_ref p \<and>
        heap w r = Some s \<and> 0 \<le> wv_n ret \<and>
        heap w' r = Some (s\<lparr>sent_offset := sent_offset s + of_nat (nat (wv_pdatalen ret)), fin_flushed := b\<rparr>)))"
proof -
  let ?K = "consts_of X" and ?w = "w\<lparr>ext_st := x'\<rparr>"
  consider "w' = w" | "w' = ?w" |
      "0 \<le> wv_n ret" "w' = account_selected ?K (quic_client_pick_send_stream ?K w) (wv_n ret) (wv_pdatalen ret) ?w"
    using call noev out by (force simp: quic_client_write_pkt_def Let_def split: sum.splits prod.splits if_splits)
  then show ?thesis
  proof cases
    case 3
    show ?thesis
    proof (cases "quic_client_pick_send_stream ?K w")
      case (Some p)
      show ?thesis
      proof (cases "heap w (pk_ref p)")
        case h: (Some s)
        let ?s = "stream_account ?K (pk_flags p) (pk_datav p) (wv_n ret) (wv_pdatalen ret) s"
        have w': "w' = put_stream (pk_ref p) ?s ?w" using 3 Some h by (simp add: account_selected_def)
        have "\<forall>r. heap w' r \<noteq> heap w r \<longrightarrow> r = pk_ref p" by (simp add: w' put_stream_def)
        moreover obtain b where "?s = s\<lparr>sent_offset := sent_offset s + of_nat (nat (wv_pdatalen ret)), fin_flushed := b\<rparr>"
          using stream_account_shape by blast
        then have "heap w' (pk_ref p) =
            Some (s\<lparr>sent_offset := sent_offset s + of_nat (nat (wv_pdatalen ret)), fin_flushed := b\<rparr>)"
          by (simp add: w' put_stream_def)
        moreover have "streams w' = streams w \<and> accept_queue w' = accept_queue w \<and> sock w' = sock w \<and> next_ref w' = next_ref w"
          by (simp add: w' put_stream_def)
        ultimately show ?thesis using Some h 3(1) by blast
      qed (use 3 Some in \<open>simp add: account_selected_def\<close>)
    qed (use 3 in \<open>simp add: account_selected_def\<close>)
  qed simp_all
qed

theorem write_pkt_frame_witness:
  "\<exists>res buffer w'. quic_client_write_pkt sample_ext2 \<lparr>positional = [], kwargs = None\<rparr> sample_client2 = (res, buffer, w') \<and>
     streams w' = streams sample_client2 \<and> accept_queue w' = accept_queue sample_client2"
proof -
  obtain ret x' where c: "writev_call sample_ext2 sample_client2 = (ret, x')" by (cases "writev_call sample_ext2 sample_client2")
  have n: "wv_events ret = []"
    using c by (auto simp: writev_call_def Let_def sample_ext2_def sample_ext_def split: prod.splits)
  obtain r b w where o: "quic_client_write_pkt sample_ext2 \<lparr>positional = [], kwargs = None\<rparr> sample_client2 = (r, b, w)"
    by (metis prod.collapse)
  with write_pkt_frame [OF c n o] show ?thesis by blast
qed

end
