(* ===== verification/Client_Behaviour.thy ===== *)
theory Client_Behaviour
  imports Client_Properties
begin

unbundle bit_operations_syntax

text \<open>
  The behaviour of single methods: the mapping of ngtcp2 errors, \<open>read_pkt\<close> and the lock of its
  packet, the callback that closes a stream, and the order in which streams are accepted.
\<close>

section \<open>Errors\<close>

text \<open>
  C30. Error mapping. Every non-zero ngtcp2 result raises; the exception is a subclass of
  \<open>Quic::Error\<close> and carries the result in \<open>@code\<close>. Each label of the switch has its class
  (\<open>CLOSING\<close>, \<open>DRAINING\<close> and \<open>IDLE_CLOSE\<close> share \<open>Closed\<close>), every other value is \<open>Unknown\<close>, and no
  ngtcp2 error is mistaken for one of the non-blocking conditions.
\<close>

theorem ngtcp2_error_mapping:
  assumes "switch_labels_distinct K"
  shows "quic_raise_ngtcp2_error K rv = Inl (Exn (QuicError (quic_error_class K rv)) (Some rv)) \<and>
    rescue_module ''Quic::Error'' (Exn (QuicError (quic_error_class K rv)) (Some rv)) \<and>
    \<not> rescue_module ''IO::WaitReadable'' (Exn (QuicError (quic_error_class K rv)) (Some rv)) \<and>
    \<not> rescue_module ''IO::WaitWritable'' (Exn (QuicError (quic_error_class K rv)) (Some rv)) \<and>
    map (quic_error_class K) (switch_labels K) =
      [QProto, QDropConn, QRetry, QClosed, QClosed, QClosed, QCryptoError, QHandshakeTimeout, QFlowControl, QStreamClosed] \<and>
    (rv \<notin> set (switch_labels K) \<longleftrightarrow> quic_error_class K rv = QUnknown)"
proof -
  have "quic_error_class K rv \<noteq> QWaitReadable" "quic_error_class K rv \<noteq> QWaitWritable"
    by (simp_all add: quic_error_class_def)
  then have "\<not> rescue_module ''IO::WaitReadable'' (Exn (QuicError (quic_error_class K rv)) (Some rv))"
    "\<not> rescue_module ''IO::WaitWritable'' (Exn (QuicError (quic_error_class K rv)) (Some rv))"
    by (simp_all add: rescue_module_def wait_readable_ancestor wait_writable_ancestor)
  moreover have "map (quic_error_class K) (switch_labels K) =
      [QProto, QDropConn, QRetry, QClosed, QClosed, QClosed, QCryptoError, QHandshakeTimeout, QFlowControl, QStreamClosed]"
    using assms by (rule error_class_labels)
  moreover have "rv \<notin> set (switch_labels K) \<longleftrightarrow> quic_error_class K rv = QUnknown"
    by (rule error_class_default)
  ultimately show ?thesis
    by (simp add: quic_raise_ngtcp2_error_def rescue_module_def class_ancestors_error)
qed

theorem ngtcp2_error_mapping_witness:
  "switch_labels_distinct sample_consts \<and> quic_error_class sample_consts (ERR_DRAINING sample_consts) = QClosed \<and>
   quic_error_class sample_consts (-99) = QUnknown"
proof -
  have "-99 \<notin> set (switch_labels sample_consts)" by (simp add: switch_labels_def sample_consts_def)
  moreover have "map (quic_error_class sample_consts) (switch_labels sample_consts) =
      [QProto, QDropConn, QRetry, QClosed, QClosed, QClosed, QCryptoError, QHandshakeTimeout, QFlowControl, QStreamClosed]"
    using ngtcp2_error_mapping [OF sample_consts_ok(1), of 0] by blast
  then have "quic_error_class sample_consts (ERR_DRAINING sample_consts) = QClosed" by (simp add: switch_labels_def)
  ultimately show ?thesis using ngtcp2_error_mapping [OF sample_consts_ok(1), of "-99"] sample_consts_ok(1) by blast
qed

section \<open>Reading packets\<close>

text \<open>
  C29. \<open>read_pkt\<close> never leaks the packet's lock. Whatever the outcome (bad arguments, a packet
  that is already locked, an ngtcp2 error raised in the middle, success), the lock bit of the
  packet String after the call is what it was before; a packet that was locked is refused with
  RuntimeError before ngtcp2 sees it.
\<close>

theorem read_pkt_restores_lock:
  "fst (snd (quic_client_read_pkt X args (lk, w))) = lk \<and>
   (lk \<longrightarrow> snd (snd (quic_client_read_pkt X args (lk, w))) = w \<and> isl (fst (quic_client_read_pkt X args (lk, w))))"
  by (auto simp: quic_client_read_pkt_def rb_ensure_def quic_read_pkt_body_def quic_read_pkt_unlock_def Let_def
      split: sum.splits prod.splits)

theorem read_pkt_restores_lock_witness:
  "isl (fst (quic_client_read_pkt sample_ext2 sample_read_args (True, sample_client)))"
  using read_pkt_restores_lock [of sample_ext2 sample_read_args True sample_client] by simp

section \<open>The life cycle of a stream\<close>

text \<open>The stream an event is about; \<open>None\<close> for an opening event.\<close>

fun event_target :: "ngtcp2_event \<Rightarrow> uint64 option" where
  "event_target (Stream_open sid) = None"
| "event_target (Recv_stream_data flags sid off data) = Some sid"
| "event_target (Acked_stream_data_offset sid off d) = Some sid"
| "event_target (Stream_close flags sid code) = Some sid"
| "event_target (Stream_reset sid sz code) = Some sid"

lemma event_unregistered:
  "event_target e = Some sid \<Longrightarrow> quic_client_lookup_stream w sid = None \<Longrightarrow> run_event K e w = w"
  by (cases e) (simp_all add: quic_recv_stream_data_cb_def quic_acked_stream_data_offset_cb_def
      quic_stream_close_cb_def quic_stream_reset_cb_def quic_client_lookup_stream_def)

text \<open>
  C25. When ngtcp2 closes a registered stream, the entry leaves the registry and no other entry
  changes; the object stays alive, is marked closed, records the application error code exactly
  when the flag says there is one, and keeps every received byte readable. Later callbacks that
  name the id have no effect until a stream is opened under it again.
\<close>

theorem stream_close_unregisters:
  assumes wf: "client_wf w" and l: "quic_client_lookup_stream w sid = Some r"
  shows "(\<exists>s s'. heap w r = Some s \<and> heap (quic_stream_close_cb K flags sid code w) r = Some s' \<and>
      closed s' \<and> recv_buffer s' = recv_buffer s \<and> fin_received s' = fin_received s \<and>
      close_has_app_error_code s' = (close_has_app_error_code s \<or> flags AND STREAM_CLOSE_FLAG_APP_ERROR_CODE_SET K \<noteq> 0) \<and>
      close_app_error_code s' = (if flags AND STREAM_CLOSE_FLAG_APP_ERROR_CODE_SET K \<noteq> 0 then code else close_app_error_code s)) \<and>
    quic_client_lookup_stream (quic_stream_close_cb K flags sid code w) sid' =
      (if sid' = sid then None else quic_client_lookup_stream w sid') \<and>
    (event_target e = Some sid \<longrightarrow>
      run_event K e (quic_stream_close_cb K flags sid code w) = quic_stream_close_cb K flags sid code w)"
proof -
  obtain s where s: "heap w r = Some s" using lookup_live [OF wf l] by blast
  have cb: "quic_stream_close_cb K flags sid code w =
      (put_stream r (stream_closed K flags code s) w)\<lparr>streams := hash_delete (streams w) (LL2NUM sid)\<rparr>"
    using l s by (simp add: quic_stream_close_cb_def quic_client_lookup_stream_def)
  have d: "distinct (map fst (streams w))" using wf by (simp add: client_wf_def registry_wf_def)
  have lk: "quic_client_lookup_stream (quic_stream_close_cb K flags sid code w) sid' =
      (if sid' = sid then None else quic_client_lookup_stream w sid')" for sid'
    using hash.aref_del [OF d] by (simp add: cb quic_client_lookup_stream_def LL2NUM_inj)
  have "\<exists>s s'. heap w r = Some s \<and> heap (quic_stream_close_cb K flags sid code w) r = Some s' \<and>
      closed s' \<and> recv_buffer s' = recv_buffer s \<and> fin_received s' = fin_received s \<and>
      close_has_app_error_code s' = (close_has_app_error_code s \<or> flags AND STREAM_CLOSE_FLAG_APP_ERROR_CODE_SET K \<noteq> 0) \<and>
      close_app_error_code s' = (if flags AND STREAM_CLOSE_FLAG_APP_ERROR_CODE_SET K \<noteq> 0 then code else close_app_error_code s)"
    using s by (simp add: cb put_stream_def) (simp add: stream_closed_def Let_def)
  moreover have "run_event K e (quic_stream_close_cb K flags sid code w) = quic_stream_close_cb K flags sid code w"
    if "event_target e = Some sid"
    using event_unregistered [OF that] lk [of sid] by simp
  ultimately show ?thesis using lk [of sid'] by blast
qed

theorem stream_close_unregisters_witness:
  "client_wf sample_client2 \<and> quic_client_lookup_stream sample_client2 1 = Some 0 \<and>
   quic_client_lookup_stream (quic_stream_close_cb sample_consts 1 1 42 sample_client2) 1 = None"
proof -
  have l: "quic_client_lookup_stream sample_client2 1 = Some 0"
    by (simp add: quic_client_lookup_stream_def sample_client2_def LL2NUM_def)
  from stream_close_unregisters [OF sample_client2_wf l, of sample_consts 1 42 1] sample_client2_wf l
  show ?thesis by simp
qed

text \<open>
  C28. Accepting is first-in first-out. \<open>accept_stream_nonblock\<close> raises WaitReadable exactly on
  an empty queue and otherwise returns its head; no callback changes which stream is next, and
  the first data of an unqueued server stream puts it at the end of the queue.
\<close>

theorem accept_fifo:
  "(case accept_queue w of
      [] \<Rightarrow> accept_stream_nonblock w = (rb_raise (QuicError QWaitReadable), w)
    | r # q \<Rightarrow> accept_stream_nonblock w = (Inr r, w\<lparr>accept_queue := q\<rparr>) \<and>
        fst (accept_stream_nonblock (run_event K e w)) = Inr r) \<and>
   (case e of Recv_stream_data flags sid off data \<Rightarrow>
      accept_queue (run_event K e w) = accept_queue w @
        (case quic_client_lookup_stream w sid of None \<Rightarrow> []
         | Some r \<Rightarrow> (case heap w r of None \<Rightarrow> []
            | Some s \<Rightarrow> if \<not> accept_queued s \<and> sid AND 1 \<noteq> 0 then [r] else []))
    | _ \<Rightarrow> accept_queue (run_event K e w) = accept_queue w)"
proof -
  have q: "\<exists>q. accept_queue (run_event K e w) = accept_queue w @ q"
    by (cases e) (auto simp: quic_stream_open_cb_def register_stream_def quic_recv_stream_data_cb_def
        quic_acked_stream_data_offset_cb_def quic_stream_close_cb_def quic_stream_reset_cb_def
        put_stream_def ary_push_def Let_def split: option.splits)
  have "case accept_queue w of
      [] \<Rightarrow> accept_stream_nonblock w = (rb_raise (QuicError QWaitReadable), w)
    | r # q \<Rightarrow> accept_stream_nonblock w = (Inr r, w\<lparr>accept_queue := q\<rparr>) \<and>
        fst (accept_stream_nonblock (run_event K e w)) = Inr r"
    using q by (cases "accept_queue w") (auto simp: accept_stream_nonblock_def intro: client.equality)
  moreover have "case e of Recv_stream_data flags sid off data \<Rightarrow>
      accept_queue (run_event K e w) = accept_queue w @
        (case quic_client_lookup_stream w sid of None \<Rightarrow> []
         | Some r \<Rightarrow> (case heap w r of None \<Rightarrow> []
            | Some s \<Rightarrow> if \<not> accept_queued s \<and> sid AND 1 \<noteq> 0 then [r] else []))
    | _ \<Rightarrow> accept_queue (run_event K e w) = accept_queue w"
    by (cases e) (auto simp: quic_stream_open_cb_def register_stream_def quic_recv_stream_data_cb_def
        quic_acked_stream_data_offset_cb_def quic_stream_close_cb_def quic_stream_reset_cb_def
        put_stream_def ary_push_def Let_def split: option.splits)
  ultimately show ?thesis by blast
qed

end
