(* ===== verification/Client_Writing.thy ===== *)
theory Client_Writing
  imports Client_Behaviour
begin

unbundle bit_operations_syntax

text \<open>
  Writing, finishing, resetting and closing: what the non-blocking write accepts and when FIN is
  committed, what the flow-control check does not count, how FIN is marked as flushed, and the
  closing methods of a stream and of a client.
\<close>

section \<open>Non-blocking writes\<close>

text \<open>The arguments of \<^verbatim>\<open>write(data, fin: fin)\<close> and how the code reads them.\<close>

definition write_args :: "rvalue \<Rightarrow> bool \<Rightarrow> call_args" where
  "write_args data fin = \<lparr>positional = [data], kwargs = Some [(''fin'', VBool fin)]\<rparr>"

lemma write_args_kwarg: "quic_stream_fin_kwarg (write_args data fin) = Inr (data, fin)"
  by (simp add: quic_stream_fin_kwarg_def rb_scan_args_def write_args_def kw_aref_def RTEST_def)

text \<open>
  C24. \<open>write_nonblock\<close> on a connected stream with a non-empty String: with a zero window it
  raises WaitWritable (even on a finished stream); otherwise a finished stream raises
  StreamClosed, and an open one queues exactly the first \<open>min(bytesize, window)\<close> bytes, returns
  their number, and commits FIN only when every byte was taken, so a caller that repeats the
  call with the rest neither loses nor duplicates a byte.
\<close>

theorem write_nonblock_behaviour:
  assumes "has_client s" "bs \<noteq> []" "length bs < 2 ^ 63"
  shows "quic_stream_write_nonblock_m X x (write_args (VStr enc bs) fin) s =
    (let avail = unat (quic_stream_window_left X x s); k = min (length bs) avail in
     if avail = 0 then rb_raise (QuicError QWaitWritable)
     else if reset s \<or> closed s \<or> fin_sent s then rb_raise (QuicError QStreamClosed)
     else Inr (int k, s\<lparr>pending_chunks := pending_chunks s @ [take k bs], fin_sent := fin \<and> k = length bs\<rparr>))"
proof -
  let ?a = "quic_stream_window_left X x s"
  have lt: "length bs < 2 ^ 64" using assms(3) by simp
  have z: "?a = 0 \<longleftrightarrow> unat ?a = 0" by (simp add: unat_eq_0)
  consider "?a = 0" | "?a \<noteq> 0" "length bs \<le> unat ?a" | "?a \<noteq> 0" "unat ?a < length bs" by linarith
  then show ?thesis
  proof cases
    case 1
    then show ?thesis using assms by (simp add: quic_stream_write_nonblock_m_def write_args_kwarg)
  next
    case 2
    then show ?thesis using assms z lt
      by (simp add: quic_stream_write_nonblock_m_def write_args_kwarg enqueue_VStr len_bound Let_def min_def)
  next
    case 3
    then have "take (unat ?a) bs \<noteq> []" using z assms(2) by simp
    with 3 show ?thesis using assms z lt
      by (simp add: quic_stream_write_nonblock_m_def write_args_kwarg enqueue_VStr len_bound Let_def min_def)
  qed
qed

definition window_ext :: "uint64 \<Rightarrow> unit ext" where
  "window_ext n = sample_ext\<lparr>x_max_stream_data_left := (\<lambda>sid x. n), x_max_data_left := (\<lambda>x. 100)\<rparr>"

lemma window_ext_left [simp]: "n < 100 \<Longrightarrow> quic_stream_window_left (window_ext n) x s = n"
  by (simp add: quic_stream_window_left_def window_ext_def)

theorem write_nonblock_behaviour_witness:
  "quic_stream_write_nonblock_m (window_ext 2) () (write_args (VStr UTF_8 [1, 2, 3]) True) (quic_stream_new 0 True) =
     Inr (2, (quic_stream_new 0 True)\<lparr>pending_chunks := [[1, 2]], fin_sent := False\<rparr>)"
  by (subst write_nonblock_behaviour) simp_all

text \<open>
  C39. The window check does not count what is already queued. Two writes in a row, with no
  packet in between, are each granted the whole window: together the stream accepts twice the
  bytes the peer allows, although the comment on \<open>quic_stream_enqueue\<close> says that the caller has
  confirmed that the bytes fit.
\<close>

theorem window_check_ignores_queued_bytes:
  assumes "has_client s" "\<not> reset s" "\<not> closed s" "\<not> fin_sent s"
    and "length bs = unat (quic_stream_window_left X x s)" "bs \<noteq> []" "length bs < 2 ^ 63"
  shows "\<exists>s1 s2. quic_stream_write_nonblock_m X x (write_args (VStr enc bs) False) s = Inr (int (length bs), s1) \<and>
    quic_stream_write_nonblock_m X x (write_args (VStr enc bs) False) s1 = Inr (int (length bs), s2) \<and>
    retained s2 = retained s @ bs @ bs \<and> sent_offset s2 = sent_offset s \<and>
    length (retained s2) - length (retained s) = 2 * unat (quic_stream_window_left X x s)"
proof -
  let ?s1 = "s\<lparr>pending_chunks := pending_chunks s @ [bs], fin_sent := False\<rparr>"
  let ?s2 = "s\<lparr>pending_chunks := pending_chunks s @ [bs, bs], fin_sent := False\<rparr>"
  have w: "quic_stream_window_left X x ?s1 = quic_stream_window_left X x s"
    by (simp add: quic_stream_window_left_def)
  have "quic_stream_write_nonblock_m X x (write_args (VStr enc bs) False) s = Inr (int (length bs), ?s1)"
    using assms by (auto simp: quic_stream_write_nonblock_m_def write_args_kwarg enqueue_VStr Let_def len_bound)
  moreover have "quic_stream_write_nonblock_m X x (write_args (VStr enc bs) False) ?s1 = Inr (int (length bs), ?s2)"
    using assms w by (auto simp: quic_stream_write_nonblock_m_def write_args_kwarg enqueue_VStr Let_def len_bound)
  ultimately show ?thesis using assms(5) by (intro exI [of _ ?s1] exI [of _ ?s2]) simp
qed

theorem window_check_ignores_queued_bytes_witness:
  "\<exists>s1 s2. quic_stream_write_nonblock_m (window_ext 2) () (write_args (VStr UTF_8 [1, 2]) False) (quic_stream_new 0 True) = Inr (2, s1) \<and>
    quic_stream_write_nonblock_m (window_ext 2) () (write_args (VStr UTF_8 [1, 2]) False) s1 = Inr (2, s2) \<and>
    retained s2 = [1, 2, 1, 2]"
  using window_check_ignores_queued_bytes [of "quic_stream_new 0 True" "[1, 2]" "window_ext 2" "()" UTF_8] by auto

section \<open>FIN\<close>

text \<open>
  C38. A FIN without data can be lost. When every byte has been framed and FIN is pending, the
  stream is offered with no data; if ngtcp2 then writes a packet that does not include the
  stream (\<open>n > 0\<close> with \<open>pdatalen = -1\<close>, an acknowledgement only, say), the code still sets
  \<open>fin_flushed\<close> and never offers the stream again, although no FIN was framed.
\<close>

theorem fin_only_marked_without_frame:
  assumes "stream_wf s" "stream_pick K s = Some (None, fl)" "0 < n" "flags_nonzero K"
  shows "fin_flushed (stream_account K fl None n (-1) s) \<and> \<not> fin_flushed s \<and> fin_sent s \<and>
    sent_offset (stream_account K fl None n (-1) s) = sent_offset s \<and>
    stream_pick K (stream_account K fl None n (-1) s) = None"
proof -
  have "fl = WRITE_STREAM_FLAG_FIN K" "\<not> fin_flushed s" "fin_sent s"
    using stream_pick_fin [OF assms(1,2)] by auto
  with assms(3,4) show ?thesis
    by (simp add: stream_account_def flags_nonzero_def stream_pick_def)
qed

theorem fin_only_marked_without_frame_witness:
  "stream_wf ((quic_stream_new 0 True)\<lparr>fin_sent := True\<rparr>) \<and>
   fin_flushed (stream_account sample_consts 2 None 40 (-1) ((quic_stream_new 0 True)\<lparr>fin_sent := True\<rparr>))"
proof -
  have wf: "stream_wf ((quic_stream_new 0 True)\<lparr>fin_sent := True\<rparr>)" by (simp add: stream_wf_def)
  have p: "stream_pick sample_consts ((quic_stream_new 0 True)\<lparr>fin_sent := True\<rparr>) = Some (None, 2)"
    by (simp add: stream_pick_def sample_consts_def)
  from fin_only_marked_without_frame [OF wf p _ sample_consts_ok(2), of 40] wf show ?thesis by simp
qed

section \<open>Resetting and closing a stream\<close>

text \<open>A writev that answers every call for one stream with the given error.\<close>

definition refuses_stream :: "'x ext \<Rightarrow> uint64 \<Rightarrow> int \<Rightarrow> bool" where
  "refuses_stream X sid rv \<longleftrightarrow> (\<forall>flags data destlen ts x. \<exists>r x'.
     x_writev_stream X flags sid data destlen ts x = (r, x') \<and> wv_n r = rv \<and> wv_events r = [])"

text \<open>
  C37. A reset stream with unsent bytes blocks the others. \<open>reset\<close> leaves the queued chunks in
  place and the scan does not look at the flag, so when the stream is the first of the registry
  and ngtcp2 refuses data for a stream whose write side is shut (its documented answer), every
  \<open>write_pkt\<close> raises StreamClosed and leaves registry and streams unchanged: the next call
  selects the same stream again and no other stream is ever served.
\<close>

theorem reset_stream_starves_others:
  assumes wf: "client_wf w" and h: "heap w r = Some s" and "reset s" and busy: "\<not> idle s"
    and first: "hash_values (streams w) = r # rest"
    and ref: "refuses_stream X (stream_id s) (ERR_STREAM_SHUT_WR (consts_of X))"
    and neg: "ERR_STREAM_SHUT_WR (consts_of X) < 0" "c_int (ERR_STREAM_SHUT_WR (consts_of X)) = ERR_STREAM_SHUT_WR (consts_of X)"
    and lab: "switch_labels_distinct (consts_of X)"
    and out: "quic_client_write_pkt X \<lparr>positional = [], kwargs = None\<rparr> w = (res, buffer, w')"
  shows "res = Inl (Exn (QuicError QStreamClosed) (Some (ERR_STREAM_SHUT_WR (consts_of X)))) \<and>
    heap w' = heap w \<and> streams w' = streams w \<and>
    quic_client_pick_send_stream (consts_of X) w' = quic_client_pick_send_stream (consts_of X) w"
proof -
  let ?K = "consts_of X"
  have "stream_wf s" using client_wf_obj [OF wf h] by (simp add: obj_wf_def)
  then obtain dv fl where p: "stream_pick ?K s = Some (dv, fl)" using busy stream_pick_idle by fastforce
  then have pick: "quic_client_pick_send_stream ?K w = Some \<lparr>pk_ref = r, pk_datav = dv, pk_flags = fl, pk_sid = stream_id s\<rparr>"
    using first h by (simp add: quic_client_pick_send_stream_def)
  obtain ts x1 where t: "quic_now X (ext_st w) = (ts, x1)" by (cases "quic_now X (ext_st w)")
  obtain ret x' where c: "x_writev_stream X fl (stream_id s) dv (QUIC_WRITE_PKT_BUFLEN ?K) ts x1 = (ret, x')"
    and n: "wv_n ret = ERR_STREAM_SHUT_WR ?K" "wv_events ret = []"
    using ref unfolding refuses_stream_def by blast
  have "quic_error_class ?K (ERR_STREAM_SHUT_WR ?K) = QStreamClosed"
    using lab by (rule error_class_shut_wr)
  with out pick t c n neg have "res = Inl (Exn (QuicError QStreamClosed) (Some (ERR_STREAM_SHUT_WR ?K))) \<and> w' = w\<lparr>ext_st := x'\<rparr>"
    by (simp add: quic_client_write_pkt_def writev_call_def rb_scan_args_def prepare_buffer_def NIL_P_def
        quic_raise_ngtcp2_error_def Let_def)
  then show ?thesis by (simp add: quic_client_pick_send_stream_def)
qed

definition refusing_ext :: "unit ext" where
  "refusing_ext = sample_ext\<lparr>x_writev_stream := (\<lambda>flags sid data destlen ts x.
     (\<lparr>wv_n = -10, wv_pdatalen = -1, wv_packet = [], wv_events = []\<rparr>, x))\<rparr>"

definition reset_client :: "unit client" where
  "reset_client = sample_client2\<lparr>heap := [0 \<mapsto> sample_stream\<lparr>reset := True, pending_chunks := [[1]]\<rparr>]\<rparr>"

theorem reset_stream_starves_others_witness:
  "client_wf reset_client \<and>
   fst (quic_client_write_pkt refusing_ext \<lparr>positional = [], kwargs = None\<rparr> reset_client) =
     Inl (Exn (QuicError QStreamClosed) (Some (-10)))"
proof -
  let ?s = "sample_stream\<lparr>reset := True, pending_chunks := [[1]]\<rparr>"
  have wf: "client_wf reset_client"
    by (simp add: reset_client_def client_wf_def registry_wf_def queue_wf_def obj_wf_def sample_client2_def
        sample_stream_def stream_wf_def LL2NUM_def)
  have c: "consts_of refusing_ext = sample_consts" by (simp add: refusing_ext_def)
  have b: "\<not> idle ?s" by (simp add: idle_def sample_stream_def)
  obtain res buf w' where o: "quic_client_write_pkt refusing_ext \<lparr>positional = [], kwargs = None\<rparr> reset_client = (res, buf, w')"
    by (metis prod.collapse)
  have "res = Inl (Exn (QuicError QStreamClosed) (Some (ERR_STREAM_SHUT_WR (consts_of refusing_ext))))"
    using reset_stream_starves_others [OF wf _ _ b _ _ _ _ _ o, of 0 "[]"] sample_consts_ok(1)
    by (simp add: c reset_client_def sample_client2_def hash_values_def refuses_stream_def
        refusing_ext_def sample_consts_def c_int_def)
  with wf o c show ?thesis by (simp add: sample_consts_def)
qed

text \<open>
  \<open>Stream#close\<close>. On an open stream it queues FIN and then asks ngtcp2 to stop the peer
  (\<open>close_read\<close>); with FIN already queued it only does the latter. On a stream that is reset or
  closed without FIN it raises StreamClosed before \<open>close_read\<close>, so after \<open>reset\<close> it never sends
  STOP_SENDING, although the comment on \<open>reset\<close> recommends \<open>close\<close> for that.
\<close>

theorem stream_close_behaviour:
  assumes "heap w r = Some s"
  shows "quic_stream_close_m X r w =
    (if fin_sent s then quic_stream_close_read_m X r w
     else if reset s \<or> closed s then (rb_raise (QuicError QStreamClosed), w)
     else quic_stream_close_read_m X r (put_stream r (s\<lparr>fin_sent := True\<rparr>) w))"
proof -
  have id: "put_stream r s w = w" using assms by (cases w) (auto simp: put_stream_def)
  have e: "s\<lparr>pending_chunks := pending_chunks s, fin_sent := True\<rparr> = s\<lparr>fin_sent := True\<rparr>" by (cases s) simp
  show ?thesis
    using assms id e
    by (simp add: quic_stream_close_m_def bindW_def stream_close_write_def on_stream_def
        quic_stream_close_write_m_def enqueue_VStr)
qed

theorem stream_close_behaviour_witness:
  "quic_stream_close_m refusing_ext 0 reset_client = (rb_raise (QuicError QStreamClosed), reset_client)"
proof -
  have "heap reset_client 0 = Some (sample_stream\<lparr>reset := True, pending_chunks := [[1]]\<rparr>)"
    by (simp add: reset_client_def)
  from stream_close_behaviour [OF this, of refusing_ext] show ?thesis by (simp add: sample_stream_def)
qed

text \<open>
  C40. \<open>Stream#reset\<close> is idempotent, and the flag it tests is shared with the peer: after a
  RESET_STREAM from the peer (which ends only the peer's sending side) a local \<open>reset\<close> returns
  without telling ngtcp2 anything, and every write is refused.
\<close>

theorem peer_reset_disables_local_reset:
  assumes wf: "client_wf w" and l: "quic_client_lookup_stream w sid = Some r"
    and args: "reset_args args = Inr error_code"
    and w': "w' = run_event K (Stream_reset sid final_size code) w"
  shows "quic_stream_reset_m X r args w' = (Inr (), w') \<and>
    stream_enqueue r data fin w' = (rb_raise (QuicError QStreamClosed), w')"
proof -
  obtain s where s: "heap w r = Some s" using lookup_live [OF wf l] by blast
  then have "\<exists>s'. heap w' r = Some s' \<and> reset s'"
    using l by (simp add: w' quic_stream_reset_cb_def put_stream_def)
  with args show ?thesis
    by (auto simp: quic_stream_reset_m_def stream_enqueue_def on_stream_def quic_stream_enqueue_def)
qed

theorem peer_reset_disables_local_reset_witness:
  "quic_stream_reset_m sample_ext2 0 \<lparr>positional = [VInt 42], kwargs = None\<rparr>
     (run_event sample_consts (Stream_reset 1 0 9) sample_client2) =
   (Inr (), run_event sample_consts (Stream_reset 1 0 9) sample_client2)"
proof -
  have l: "quic_client_lookup_stream sample_client2 1 = Some 0"
    by (simp add: quic_client_lookup_stream_def sample_client2_def LL2NUM_def)
  have a: "reset_args \<lparr>positional = [VInt 42], kwargs = None\<rparr> = Inr 42"
    by (simp add: reset_args_def rb_scan_args_def NIL_P_def)
  from peer_reset_disables_local_reset [OF sample_client2_wf l a refl] show ?thesis by blast
qed

section \<open>Closing the connection\<close>

text \<open>
  \<open>Client#close\<close>. In the closing or draining period it is a no-op, bound or not; outside
  them it needs a bound socket; a connection for which ngtcp2 cannot emit CONNECTION_CLOSE yet
  (\<open>ERR_INVALID_STATE\<close>) is left alone without an error and without sending. When a call has
  moved the connection into the closing period, a second call does nothing.
\<close>

theorem client_close_behaviour:
  assumes args: "close_args args = Inr (code, reason)" and args2: "close_args args2 = Inr (code2, reason2)"
  shows "(quic_client_in_closing_period_p X w \<or> quic_client_in_draining_period_p X w \<longrightarrow>
      quic_client_close_m X args w = (Inr (), w)) \<and>
    (\<not> quic_client_in_closing_period_p X w \<and> \<not> quic_client_in_draining_period_p X w \<and> sock w = None \<longrightarrow>
      quic_client_close_m X args w = (rb_raise (QuicError QNotBound), w)) \<and>
    (\<forall>w1. quic_client_close_m X args w = (Inr (), w1) \<and> quic_client_in_closing_period_p X w1 \<longrightarrow>
      quic_client_close_m X args2 w1 = (Inr (), w1)) \<and>
    (\<forall>ts x1 x2 pkt. \<not> quic_client_in_closing_period_p X w \<and> \<not> quic_client_in_draining_period_p X w \<and> sock w \<noteq> None \<and>
        quic_now X (ext_st w) = (ts, x1) \<and>
        x_write_connection_close X code (if length reason > 0 then Some reason else None)
          (QUIC_WRITE_PKT_BUFLEN (consts_of X)) ts x1 = ((ERR_INVALID_STATE (consts_of X), pkt, []), x2) \<longrightarrow>
      quic_client_close_m X args w = (Inr (), w\<lparr>ext_st := x2\<rparr>))"
  using assms
  by (auto simp: quic_client_close_m_def quic_client_in_closing_period_p_def quic_client_in_draining_period_p_def Let_def)

theorem client_close_behaviour_witness:
  "quic_client_close_m sample_ext2 \<lparr>positional = [], kwargs = None\<rparr> sample_client2 =
     (rb_raise (QuicError QNotBound), sample_client2)"
proof -
  have a: "close_args \<lparr>positional = [], kwargs = None\<rparr> = Inr (0, [])"
    by (simp add: close_args_def rb_scan_args_def)
  from client_close_behaviour [OF a a, of sample_ext2 sample_client2] show ?thesis
    by (simp add: quic_client_in_closing_period_p_def quic_client_in_draining_period_p_def sample_ext2_def
        sample_ext_def sample_client2_def)
qed

end
