(* ===== verification/Io_Properties.thy ===== *)
theory Io_Properties
  imports Io_Loop Open_Properties Client_Writing
begin

unbundle bit_operations_syntax

text \<open>
  The blocking layer: when its loops return, what they leave behind, and where they cannot
  return. The locale \<open>waiting_loop\<close> is the contract of a loop that pumps until a condition
  holds; \<open>pump_until\<close> and the window loop of \<open>Stream#write\<close> are its two instances.
\<close>

section \<open>Loops that wait\<close>

text \<open>\<open>waits ready once w w'\<close>: finitely many iterations lead from \<open>w\<close> to the first state that is ready.\<close>

inductive waits :: "('w \<Rightarrow> bool) \<Rightarrow> ('w \<Rightarrow> ((exn + unit) \<times> 'w) option) \<Rightarrow> 'w \<Rightarrow> 'w \<Rightarrow> bool" for ready once where
  now: "ready w \<Longrightarrow> waits ready once w w"
| pump: "\<not> ready w \<Longrightarrow> once w = Some (Inr (), w1) \<Longrightarrow> waits ready once w1 w' \<Longrightarrow> waits ready once w w'"

inductive_cases waitsE: "waits ready once w w'"

locale waiting_loop =
  fixes loop :: "'w \<Rightarrow> ((exn + unit) \<times> 'w) option"
    and ready :: "'w \<Rightarrow> bool"
    and once :: "'w \<Rightarrow> ((exn + unit) \<times> 'w) option"
  assumes loop_unfold: "loop w = (if ready w then Some (Inr (), w)
      else (case once w of None \<Rightarrow> None
        | Some (r, w1) \<Rightarrow> (case r of Inl e \<Rightarrow> Some (Inl e, w1) | Inr u \<Rightarrow> loop w1)))"
    and loop_least: "loop w = Some y \<Longrightarrow> (\<And>w. ready w \<Longrightarrow> P w (Inr (), w)) \<Longrightarrow>
      (\<And>w e w1. \<not> ready w \<Longrightarrow> once w = Some (Inl e, w1) \<Longrightarrow> P w (Inl e, w1)) \<Longrightarrow>
      (\<And>w w1 y. \<not> ready w \<Longrightarrow> once w = Some (Inr (), w1) \<Longrightarrow> P w1 y \<Longrightarrow> P w y) \<Longrightarrow> P w y"
begin

lemma loop_waits: "loop w = Some (Inr (), w') \<longleftrightarrow> waits ready once w w'"
proof
  assume l: "loop w = Some (Inr (), w')"
  define P where "P w y \<longleftrightarrow> (\<forall>v. y = (Inr () :: exn + unit, v) \<longrightarrow> waits ready once w v)" for w y
  have "P w (Inr (), w')" by (rule loop_least [OF l]) (auto simp: P_def intro: waits.intros)
  then show "waits ready once w w'" by (simp add: P_def)
next
  assume "waits ready once w w'"
  then show "loop w = Some (Inr (), w')"
    by (induction rule: waits.induct) (subst loop_unfold; simp)+
qed

text \<open>An invariant of the iterations holds when the loop returns, and the condition too.\<close>

lemma loop_inv:
  assumes "loop w = Some (Inr (), w')" "I w"
    and "\<And>w w1. I w \<Longrightarrow> \<not> ready w \<Longrightarrow> once w = Some (Inr (), w1) \<Longrightarrow> I w1"
  shows "I w' \<and> ready w'"
proof -
  have "waits ready once w w'" using assms(1) by (simp add: loop_waits)
  then show ?thesis using assms(2) by (induction rule: waits.induct) (auto intro: assms(3))
qed

text \<open>A reflexive and transitive relation that every iteration respects, also one that raises.\<close>

lemma loop_rel:
  assumes l: "loop w = Some (r, w')" and refl: "\<And>w. R w w" and trans: "\<And>u v w. R u v \<Longrightarrow> R v w \<Longrightarrow> R u w"
    and step: "\<And>w r w1. once w = Some (r, w1) \<Longrightarrow> R w w1"
  shows "R w w'"
proof -
  have "R w (snd (r, w'))"
    by (rule loop_least [OF l, of "\<lambda>w y. R w (snd y)"]) (auto intro: refl step trans)
  then show ?thesis by simp
qed

text \<open>A loop whose condition stays false while the iterations succeed never returns.\<close>

lemma loop_diverges:
  assumes "I w" and "\<And>w. I w \<Longrightarrow> \<not> ready w \<and> (\<exists>w1. once w = Some (Inr (), w1) \<and> I w1)"
  shows "loop w = None"
proof (rule ccontr)
  assume "loop w \<noteq> None"
  then obtain y where "loop w = Some y" by blast
  then have "\<not> I w"
    by (rule loop_least) (use assms(2) in fastforce)+
  with assms(1) show False by simp
qed

end

lemma pump_until_least:
  assumes "pump_until X pred w = Some y" and "\<And>w. pred w \<Longrightarrow> P w (Inr (), w)"
    and "\<And>w e w1. \<not> pred w \<Longrightarrow> pump_once X None w = Some (Inl e, w1) \<Longrightarrow> P w (Inl e, w1)"
    and "\<And>w w1 y. \<not> pred w \<Longrightarrow> pump_once X None w = Some (Inr (), w1) \<Longrightarrow> P w1 y \<Longrightarrow> P w y"
  shows "P w y"
proof -
  have "X = X \<longrightarrow> pred = pred \<longrightarrow> P w y"
    by (rule pump_until.raw_induct [of "\<lambda>X' pred' w y. X' = X \<longrightarrow> pred' = pred \<longrightarrow> P w y", OF _ assms(1)])
      (auto split: if_splits option.splits sum.splits simp: assms(2,3), metis assms(4))
  then show ?thesis by simp
qed

interpretation pu: waiting_loop "pump_until X pred" pred "pump_once X None" for X :: "'x ext" and pred
  by unfold_locales (rule pump_until.simps, rule pump_until_least)

text \<open>The window loop of \<open>Stream#write\<close>.\<close>

definition window_open :: "'x ext \<Rightarrow> nat \<Rightarrow> nat \<Rightarrow> 'x client \<Rightarrow> bool" where
  "window_open X r needed w \<longleftrightarrow>
     (case heap w r of None \<Rightarrow> True | Some s \<Rightarrow> of_nat needed \<le> quic_stream_window_left X (ext_st w) s)"

lemma window_open_simp:
  "(case heap w r of None \<Rightarrow> False | Some s \<Rightarrow> quic_stream_window_left X (ext_st w) s < of_nat needed) \<longleftrightarrow>
   \<not> window_open X r needed w"
  by (simp add: window_open_def not_le split: option.splits)

lemma write_wait_least:
  assumes "write_wait X r needed w = Some y" and "\<And>w. window_open X r needed w \<Longrightarrow> P w (Inr (), w)"
    and "\<And>w e w1. \<not> window_open X r needed w \<Longrightarrow> pump_once X None w = Some (Inl e, w1) \<Longrightarrow> P w (Inl e, w1)"
    and "\<And>w w1 y. \<not> window_open X r needed w \<Longrightarrow> pump_once X None w = Some (Inr (), w1) \<Longrightarrow> P w1 y \<Longrightarrow> P w y"
  shows "P w y"
proof -
  have "X = X \<longrightarrow> r = r \<longrightarrow> needed = needed \<longrightarrow> P w y"
    by (rule write_wait.raw_induct [of "\<lambda>X' r' n' w y. X' = X \<longrightarrow> r' = r \<longrightarrow> n' = needed \<longrightarrow> P w y", OF _ assms(1)])
      (unfold window_open_simp, auto split: if_splits option.splits sum.splits simp: assms(2,3), metis assms(4))
  then show ?thesis by simp
qed

interpretation ww: waiting_loop "write_wait X r needed" "window_open X r needed" "pump_once X None"
  for X :: "'x ext" and r needed
proof unfold_locales
  fix w :: "'x client"
  show "write_wait X r needed w = (if window_open X r needed w then Some (Inr (), w)
      else (case pump_once X None w of None \<Rightarrow> None
        | Some (res, w1) \<Rightarrow> (case res of Inl e \<Rightarrow> Some (Inl e, w1) | Inr u \<Rightarrow> write_wait X r needed w1)))"
    by (subst write_wait.simps) (simp add: window_open_simp)
qed (rule write_wait_least)

section \<open>What one pump keeps\<close>

lemma ext_run_event [simp]: "ext_st (run_event K e w) = ext_st w"
  by (cases e) (simp_all add: quic_stream_open_cb_def register_stream_def quic_recv_stream_data_cb_def
      quic_acked_stream_data_offset_cb_def quic_stream_close_cb_def quic_stream_reset_cb_def
      put_stream_def Let_def split: option.splits)

lemma ext_run_events [simp]: "ext_st (run_events K es w) = ext_st w"
  by (induction K es w rule: run_events.induct) simp_all

lemma ext_account [simp]: "ext_st (account_selected K sel n pd w) = ext_st w"
  by (simp add: account_selected_def put_stream_def split: option.splits)

text \<open>
  What a stream object keeps while the client pumps: its id, its client and its flags; received
  bytes are only ever appended to, since only the application takes bytes out, and queued chunks
  are only dropped from the front, since only the application queues any.
\<close>

definition pumped :: "stream \<Rightarrow> stream \<Rightarrow> bool" where
  "pumped s s' \<longleftrightarrow> stream_id s' = stream_id s \<and> has_client s' = has_client s \<and> fin_sent s' = fin_sent s \<and>
     (reset s \<longrightarrow> reset s') \<and> (closed s \<longrightarrow> closed s') \<and> (\<exists>later. recv_buffer s' = recv_buffer s @ later) \<and>
     (\<exists>dropped. pending_chunks s = dropped @ pending_chunks s')"

lemma pumped_refl: "pumped s s"
  by (simp add: pumped_def)

lemma pumped_trans: "pumped s t \<Longrightarrow> pumped t u \<Longrightarrow> pumped s u"
  unfolding pumped_def by (metis append.assoc)

lemma pumped_recv: "pumped s (stream_recv K flags data s)"
  by (auto simp: pumped_def stream_recv_def Let_def)

lemma shift_acked_suffix: "\<exists>dropped. cs = dropped @ snd (shift_acked a sh cs)"
proof (induction a sh cs rule: shift_acked.induct)
  case (2 acked shifted head rest)
  show ?case
  proof (cases "shifted + of_nat (length head) \<le> acked")
    case True
    with 2 obtain dropped where "rest = dropped @ snd (shift_acked acked (shifted + of_nat (length head)) rest)" by blast
    then have "head # rest = (head # dropped) @ snd (shift_acked acked (shifted + of_nat (length head)) rest)" by simp
    with True show ?thesis by (metis (mono_tags, lifting) shift_acked.simps(2))
  qed (simp add: Let_def)
qed simp

lemma pumped_acked: "pumped s (stream_acked d s)"
proof -
  have "pending_chunks (stream_acked d s) = snd (shift_acked (acked_offset s + d) (pending_shifted s) (pending_chunks s))"
    by (simp add: stream_acked_def Let_def split: prod.splits)
  with shift_acked_suffix show ?thesis by (simp add: pumped_def)
qed

lemma pumped_account: "pumped s (stream_account K fl dv n pd s)"
  by (simp add: pumped_def)

lemma pumped_closed: "pumped s (stream_closed K fl c s)"
  by (simp add: pumped_def)

text \<open>The object \<open>r\<close> survives, and it keeps what \<open>pumped\<close> says.\<close>

definition keeps_bytes :: "nat \<Rightarrow> 'x client \<Rightarrow> 'x client \<Rightarrow> bool" where
  "keeps_bytes r w w' \<longleftrightarrow> (\<forall>s. heap w r = Some s \<longrightarrow> r < next_ref w \<longrightarrow>
     r < next_ref w' \<and> (\<exists>s'. heap w' r = Some s' \<and> pumped s s'))"

lemma keeps_bytesD:
  assumes "keeps_bytes r w w'" "heap w r = Some s" "r < next_ref w"
  obtains s' where "heap w' r = Some s'" "pumped s s'" "r < next_ref w'"
  using assms by (auto simp: keeps_bytes_def)

lemma keeps_refl: "keeps_bytes r w w"
  by (auto simp: keeps_bytes_def pumped_refl)

lemma keeps_trans: "keeps_bytes r u v \<Longrightarrow> keeps_bytes r v w \<Longrightarrow> keeps_bytes r u w"
  unfolding keeps_bytes_def by (meson pumped_trans)

lemma keeps_eq: "heap w' = heap w \<Longrightarrow> next_ref w' = next_ref w \<Longrightarrow> keeps_bytes r w w'"
  by (auto simp: keeps_bytes_def pumped_refl)

lemma keeps_put: "heap w q = Some s \<Longrightarrow> pumped s s' \<Longrightarrow> keeps_bytes r w (put_stream q s' w)"
  by (auto simp: keeps_bytes_def put_stream_def pumped_refl)

lemma keeps_run_event: "keeps_bytes r w (run_event K e w)"
proof (cases e)
  case (Recv_stream_data flags sid off data)
  show ?thesis
  proof (cases "quic_client_lookup_stream w sid")
    case (Some q)
    show ?thesis
    proof (cases "heap w q")
      case (Some s)
      have "pumped s (stream_recv K flags data (s\<lparr>accept_queued := True\<rparr>))"
        by (rule pumped_trans [OF _ pumped_recv]) (simp add: pumped_def)
      with Some pumped_recv [of s K flags data] show ?thesis
        using \<open>quic_client_lookup_stream w sid = Some q\<close>
        by (auto simp: Recv_stream_data quic_recv_stream_data_cb_def intro!: keeps_put
            keeps_trans [OF keeps_eq keeps_put])
    qed (simp add: Recv_stream_data Some quic_recv_stream_data_cb_def keeps_refl)
  qed (simp add: Recv_stream_data quic_recv_stream_data_cb_def keeps_refl)
next
  case (Stream_close flags sid code)
  have "keeps_bytes r w ((put_stream q (stream_closed K flags code s) w)\<lparr>streams := h\<rparr>)" if "heap w q = Some s" for q s h
    by (rule keeps_trans [OF keeps_put [OF that pumped_closed] keeps_eq]) simp_all
  then show ?thesis
    by (auto simp: Stream_close quic_stream_close_cb_def keeps_refl split: option.splits)
next
  case (Acked_stream_data_offset sid off d)
  then show ?thesis
    by (auto simp: quic_acked_stream_data_offset_cb_def keeps_refl intro: keeps_put pumped_acked split: option.splits)
next
  case (Stream_reset sid final code)
  have "pumped s (s\<lparr>reset := True, close_app_error_code := code, close_has_app_error_code := True\<rparr>)" for s
    by (simp add: pumped_def)
  then show ?thesis
    by (auto simp: Stream_reset quic_stream_reset_cb_def keeps_refl intro!: keeps_put split: option.splits)
next
  case (Stream_open sid)
  then show ?thesis
    by (auto simp: quic_stream_open_cb_def register_stream_def keeps_refl keeps_bytes_def pumped_refl Let_def)
qed

lemma keeps_run_events: "keeps_bytes r w (run_events K es w)"
  by (induction K es w rule: run_events.induct) (auto intro: keeps_refl keeps_trans keeps_run_event)

lemma keeps_ext [simp]: "keeps_bytes r w (w'\<lparr>ext_st := x\<rparr>) = keeps_bytes r w w'" "keeps_bytes r (w\<lparr>ext_st := x\<rparr>) w' = keeps_bytes r w w'"
  by (simp_all add: keeps_bytes_def)

lemma keeps_account: "keeps_bytes r w (account_selected K sel n pd w)"
  by (auto simp: account_selected_def keeps_refl split: option.splits intro!: keeps_put pumped_account)

lemma keeps_write_pkt: "quic_client_write_pkt X args w = (res, buf, w') \<Longrightarrow> keeps_bytes r w w'"
proof -
  assume out: "quic_client_write_pkt X args w = (res, buf, w')"
  obtain ret x' where c: "writev_call X w = (ret, x')" by (cases "writev_call X w")
  have e: "keeps_bytes r w (run_events K es (w\<lparr>ext_st := x'\<rparr>))" for K es
    using keeps_run_events [of r "w\<lparr>ext_st := x'\<rparr>"] by simp
  have a: "keeps_bytes r w (account_selected K sel n pd (run_events K es (w\<lparr>ext_st := x'\<rparr>)))" for K sel n pd es
    using keeps_trans [OF e keeps_account] .
  show ?thesis
    using out c by (auto simp: quic_client_write_pkt_def Let_def keeps_refl e a split: sum.splits if_splits)
qed

lemma keeps_handle_expiry: "quic_client_handle_expiry X w = (res, w') \<Longrightarrow> keeps_bytes r w w'"
  using keeps_run_events [of r "w\<lparr>ext_st := x\<rparr>" for x]
  by (auto simp: quic_client_handle_expiry_def Let_def split: prod.splits)

lemma keeps_read_pkt: "quic_client_read_pkt X args (lk, w) = (res, lk', w') \<Longrightarrow> keeps_bytes r w w'"
  using keeps_run_events [of r "w\<lparr>ext_st := x\<rparr>" for x]
  by (auto simp: quic_client_read_pkt_def rb_ensure_def quic_read_pkt_body_def quic_read_pkt_unlock_def keeps_refl
      Let_def split: prod.splits sum.splits if_splits)

section \<open>Relations every pump respects\<close>

text \<open>
  The calls of the loop to the operating system: from the state \<open>x\<close> of everything outside the
  client to the state after the call.
\<close>

inductive env_call :: "'x ext \<Rightarrow> 'x \<Rightarrow> 'x \<Rightarrow> bool" for X where
  clock: "x_clock_gettime X x = (t, x') \<Longrightarrow> env_call X x x'"
| sock_send: "x_sock_send X so pkt x = (sent, x') \<Longrightarrow> env_call X x x'"
| sock_select: "x_sock_select X so wait_for x = (ready, x') \<Longrightarrow> env_call X x x'"
| sock_recvfrom: "x_sock_recvfrom X so len x = (data, x') \<Longrightarrow> env_call X x x'"
| addrinfo: "x_addrinfo X fam host port x = (addr, x') \<Longrightarrow> env_call X x x'"
| sock_remote_address: "x_sock_remote_address X so x = (addr, x') \<Longrightarrow> env_call X x x'"

definition step_in :: "('w \<Rightarrow> 'w \<Rightarrow> bool) \<Rightarrow> ('w \<Rightarrow> ('e + 'a) \<times> 'w) \<Rightarrow> bool" where
  "step_in R m \<longleftrightarrow> (\<forall>w r w'. m w = (r, w') \<longrightarrow> R w w')"

lemma step_in_bindW:
  assumes "transp R" "step_in R m" "\<And>a. step_in R (k a)"
  shows "step_in R (bindW m k)"
  unfolding step_in_def
proof (intro allI impI)
  fix w r w'
  assume b: "bindW m k w = (r, w')"
  obtain res w1 where m: "m w = (res, w1)" by (cases "m w")
  then have "R w w1" using assms(2) by (simp add: step_in_def)
  moreover have "w' = w1 \<or> R w1 w'"
    using b m assms(3) by (cases res) (auto simp: bindW_def step_in_def)
  ultimately show "R w w'" using assms(1) by (auto elim: transpE)
qed

text \<open>
  A preorder on clients that the three packet methods, the calls to the operating system and the
  assignments of the I/O loop respect, so that every blocking call respects it.
\<close>

locale io_relation =
  fixes X :: "'x ext" and R :: "'x client \<Rightarrow> 'x client \<Rightarrow> bool"
  assumes R_refl: "R w w"
    and R_trans: "transp R"
    and R_write: "quic_client_write_pkt X \<lparr>positional = [], kwargs = None\<rparr> w = (res, buf, w1) \<Longrightarrow> R w w1"
    and R_read: "quic_client_read_pkt X args (False, w) = (ures, lk, w1) \<Longrightarrow> R w w1"
    and R_expiry: "quic_client_handle_expiry X w = (ures, w1) \<Longrightarrow> R w w1"
    and R_ext: "env_call X (ext_st w) x \<Longrightarrow> R w (w\<lparr>ext_st := x\<rparr>)"
    and R_local: "R w (w\<lparr>iv_pump_local_sockaddr := a\<rparr>)"
    and R_remote: "R w (w\<lparr>iv_pump_remote_sockaddr := a\<rparr>)"
begin

lemma R_step: "R u v \<Longrightarrow> R v w \<Longrightarrow> R u w"
  using R_trans by (auto elim: transpE)

lemma flush_rel: "pump_flush X so w = Some (r, w') \<Longrightarrow> R w w'"
proof -
  assume l: "pump_flush X so w = Some (r, w')"
  have "X = X \<longrightarrow> R w (snd (r, w'))"
  proof (rule pump_flush.raw_induct [of "\<lambda>X' so w y. X' = X \<longrightarrow> R w (snd y)", OF _ l], rule impI, goal_cases)
    case (1 pf X' so w y)
    note ih = 1(1) and body = 1(2) and X = 1(3)
    obtain res buf w1 where wp: "quic_client_write_pkt X \<lparr>positional = [], kwargs = None\<rparr> w = (res, buf, w1)"
      by (metis prod.collapse)
    have a: "R w w1" using wp by (rule R_write)
    have b: "R w (w1\<lparr>ext_st := x'\<rparr>)" if "x_sock_send X so pkt (ext_st w1) = (sent, x')" for pkt sent x'
      by (rule R_step [OF a R_ext [OF env_call.sock_send [OF that]]])
    show "R w (snd y)"
    proof (cases "\<exists>pkt. res = Inr (Some pkt)")
      case True
      then obtain pkt where p: "res = Inr (Some pkt)" by blast
      obtain sent x' where s: "x_sock_send X so pkt (ext_st w1) = (sent, x')" by (cases "x_sock_send X so pkt (ext_st w1)")
      with body X wp p b [OF s] ih [of X so "w1\<lparr>ext_st := x'\<rparr>" y] show ?thesis
        by (cases sent) (auto intro: R_step)
    next
      case False
      with body X wp a show ?thesis by (auto split: sum.splits option.splits)
    qed
  qed
  then show ?thesis by simp
qed

lemma timeout_rel: "pump_timeout X t w = (t', w1) \<Longrightarrow> R w w1"
  by (auto simp: pump_timeout_def clock_ns_def Let_def intro: R_refl R_ext env_call.clock split: option.splits prod.splits)

lemma wait_rel: "step_in R (pump_wait X so t)"
proof -
  have "R w w'" if "pump_select X so t w = (r, w')" for w r w'
  proof -
    obtain t' w1 where t: "pump_timeout X t w = (t', w1)" by fastforce
    obtain ready x' where s: "x_sock_select X so t' (ext_st w1) = (ready, x')" by fastforce
    from that t s have "w' = w1\<lparr>ext_st := x'\<rparr>" by (simp add: pump_select_def)
    with R_step [OF timeout_rel [OF t] R_ext [OF env_call.sock_select [OF s]]] show ?thesis by simp
  qed
  then have sel: "step_in R (pump_select X so t)" by (simp add: step_in_def)
  have rcv: "step_in R (pump_recvfrom X so)"
    by (auto simp: step_in_def pump_recvfrom_def intro: R_ext env_call.sock_recvfrom split: prod.splits)
  have lsa: "step_in R (pump_local_sockaddr X)"
    using R_step [OF R_ext R_local]
    by (auto simp: step_in_def pump_local_sockaddr_def intro: R_ext R_refl env_call.addrinfo split: prod.splits option.splits sum.splits)
  have rsa: "step_in R (pump_remote_sockaddr X so)"
    using R_step [OF R_ext R_remote]
    by (auto simp: step_in_def pump_remote_sockaddr_def intro: R_ext R_refl env_call.sock_remote_address split: prod.splits option.splits sum.splits)
  have rd: "step_in R (pump_read_pkt X data a b)" for data a b
    by (auto simp: step_in_def pump_read_pkt_def intro: R_read split: prod.splits)
  have ex: "step_in R (quic_client_handle_expiry X)"
    by (auto simp: step_in_def intro: R_expiry)
  show ?thesis
    unfolding pump_wait_def
    by (intro step_in_bindW R_trans sel) (simp add: ex step_in_bindW R_trans rcv lsa rsa rd)
qed

lemma once_rel: "pump_once X t w = Some (r, w') \<Longrightarrow> R w w'"
proof (cases "sock w")
  case (Some so)
  assume o: "pump_once X t w = Some (r, w')"
  with Some obtain res w1 where f: "pump_flush X so w = Some (res, w1)"
    by (auto simp: pump_once_def split: option.splits)
  then have "R w w1" by (rule flush_rel)
  moreover have "w' = w1 \<or> pump_wait X so t w1 = (r, w')"
    using o Some f by (cases res) (auto simp: pump_once_def)
  ultimately show ?thesis using wait_rel by (auto simp: step_in_def intro: R_step)
qed (simp add: pump_once_def R_refl)

lemma until_rel: "pump_until X pred w = Some (r, w') \<Longrightarrow> R w w'"
  by (erule pu.loop_rel) (auto intro: R_refl R_step once_rel)

lemma write_wait_rel: "write_wait X q needed w = Some (r, w') \<Longrightarrow> R w w'"
  by (erule ww.loop_rel) (auto intro: R_refl R_step once_rel)

lemma run_rel: "run X w = Some (r, w') \<Longrightarrow> R w w'"
  by (auto simp: run_def R_refl split: if_splits dest: until_rel)

end

interpretation kb: io_relation X "keeps_bytes r" for X :: "'x ext" and r
proof unfold_locales
  fix w w1 :: "'x client" and res buf args ures lk x a
  show "keeps_bytes r w w" by (rule keeps_refl)
  show "transp (keeps_bytes r :: 'x client \<Rightarrow> 'x client \<Rightarrow> bool)" by (rule transpI) (rule keeps_trans)
  show "keeps_bytes r w w1" if "quic_client_write_pkt X \<lparr>positional = [], kwargs = None\<rparr> w = (res, buf, w1)"
    using that by (rule keeps_write_pkt)
  show "keeps_bytes r w w1" if "quic_client_read_pkt X args (False, w) = (ures, lk, w1)"
    using that by (rule keeps_read_pkt)
  show "keeps_bytes r w w1" if "quic_client_handle_expiry X w = (ures, w1)"
    using that by (rule keeps_handle_expiry)
  show "keeps_bytes r w (w\<lparr>ext_st := x\<rparr>)" if "env_call X (ext_st w) x" by (rule keeps_eq) simp_all
  show "keeps_bytes r w (w\<lparr>iv_pump_local_sockaddr := a\<rparr>)" by (rule keeps_eq) simp_all
  show "keeps_bytes r w (w\<lparr>iv_pump_remote_sockaddr := a\<rparr>)" by (rule keeps_eq) simp_all
qed

end
