(* ===== verification/Io_Behaviour.thy ===== *)
theory Io_Behaviour
  imports Io_Properties
begin

unbundle bit_operations_syntax

text \<open>
  The properties of the blocking calls: flushing ends, \<open>run\<close> and the blocking write return
  exactly when finitely many pumps reach their condition, the pump never waits longer than it
  may, accepting is prompt when a stream is queued; and three places where a blocking call
  cannot return although its documentation says that it does.
\<close>

section \<open>Flushing\<close>

text \<open>
  What ngtcp2 documents about its output: \<open>ngtcp2_conn_writev_stream\<close> is to be called until it
  returns 0, which it does once there is nothing left that may be sent now. \<open>m\<close> counts the packets
  the connection may still produce: a call that writes a packet lowers it, and neither the clock
  nor the socket raises it.
\<close>

definition output_bounded :: "'x ext \<Rightarrow> ('x \<Rightarrow> nat) \<Rightarrow> bool" where
  "output_bounded X m \<longleftrightarrow>
     (\<forall>flags sid data destlen ts x ret x'. x_writev_stream X flags sid data destlen ts x = (ret, x') \<longrightarrow>
        0 < wv_n ret \<longrightarrow> m x' < m x) \<and>
     (\<forall>x t x'. x_clock_gettime X x = (t, x') \<longrightarrow> m x' \<le> m x) \<and>
     (\<forall>so d x r x'. x_sock_send X so d x = (r, x') \<longrightarrow> m x' \<le> m x)"

lemma write_pkt_lowers:
  assumes b: "output_bounded X m"
    and out: "quic_client_write_pkt X \<lparr>positional = [], kwargs = None\<rparr> w = (Inr (Some pkt), buf, w1)"
  shows "m (ext_st w1) < m (ext_st w)"
proof -
  obtain ret x' where c: "writev_call X w = (ret, x')" by (cases "writev_call X w")
  obtain ts x1 where t: "quic_now X (ext_st w) = (ts, x1)" by (cases "quic_now X (ext_st w)")
  have t': "m x1 \<le> m (ext_st w)"
    using t b unfolding output_bounded_def quic_now_def by (auto split: prod.splits)
  from out c have n: "0 < wv_n ret" "ext_st w1 = x'"
    by (auto simp: quic_client_write_pkt_def prepare_buffer_def rb_scan_args_def NIL_P_def Let_def
        quic_raise_ngtcp2_error_def split: if_splits)
  obtain flags sid datav where "x_writev_stream X flags sid datav (QUIC_WRITE_PKT_BUFLEN (consts_of X)) ts x1 = (ret, x')"
    using c t by (auto simp: writev_call_def Let_def split: prod.splits)
  with b n(1) have "m x' < m x1" unfolding output_bounded_def by blast
  with t' n(2) show ?thesis by simp
qed

text \<open>
  C26. Flushing ends. When the connection's output is bounded, the \<^verbatim>\<open>while (pkt = write_pkt)\<close> loop
  of \<open>pump_once\<close> returns or raises after finitely many packets, and when it returns the last
  \<open>write_pkt\<close> had nothing more to send.
\<close>

theorem pump_flush_returns:
  assumes b: "output_bounded X m"
  shows "\<exists>r w'. pump_flush X so w = Some (r, w') \<and>
    (r = Inr () \<longrightarrow> (\<exists>w1 buf. quic_client_write_pkt X \<lparr>positional = [], kwargs = None\<rparr> w1 = (Inr None, buf, w')))"
proof (induction "m (ext_st w)" arbitrary: w rule: less_induct)
  case less
  obtain res buf w1 where wp: "quic_client_write_pkt X \<lparr>positional = [], kwargs = None\<rparr> w = (res, buf, w1)"
    by (metis prod.collapse)
  show ?case
  proof (cases "\<exists>pkt. res = Inr (Some pkt)")
    case True
    then obtain pkt where p: "res = Inr (Some pkt)" by blast
    obtain sent x' where s: "x_sock_send X so pkt (ext_st w1) = (sent, x')"
      by (cases "x_sock_send X so pkt (ext_st w1)")
    have "m x' \<le> m (ext_st w1)" using b s unfolding output_bounded_def by blast
    also have "\<dots> < m (ext_st w)" using write_pkt_lowers [OF b] wp p by blast
    finally have "m (ext_st (w1\<lparr>ext_st := x'\<rparr>)) < m (ext_st w)" by simp
    from less [OF this] show ?thesis
      by (cases sent) (simp_all add: pump_flush.simps [of X so w] wp p s)
  next
    case False
    then show ?thesis
      using wp by (cases res) (auto simp: pump_flush.simps [of X so w] split: option.splits)
  qed
qed

text \<open>A connection with three packets to send.\<close>

definition packets_ext :: "nat ext" where
  "packets_ext = sample_ext\<lparr>x_writev_stream := (\<lambda>flags sid data destlen ts x.
     if x = 0 then (\<lparr>wv_n = 0, wv_pdatalen = -1, wv_packet = [], wv_events = []\<rparr>, 0)
     else (\<lparr>wv_n = 1, wv_pdatalen = -1, wv_packet = [7], wv_events = []\<rparr>, x - 1))\<rparr>"

definition idle_client :: "'x \<Rightarrow> 'x client" where
  "idle_client x = \<lparr>ext_st = x, heap = Map.empty, next_ref = 0, streams = [], accept_queue = [], sock = Some 4,
     iv_pump_local_sockaddr = None, iv_pump_remote_sockaddr = None\<rparr>"

theorem pump_flush_returns_witness:
  "\<exists>r w'. pump_flush packets_ext 4 (idle_client 3) = Some (r, w')"
proof -
  have "output_bounded packets_ext (\<lambda>x. x)"
    unfolding output_bounded_def by (auto simp: packets_ext_def sample_ext_def split: if_splits)
  from pump_flush_returns [OF this, of 4 "idle_client 3"] show ?thesis by blast
qed

section \<open>Waiting\<close>

text \<open>
  The pump never oversleeps. With a timer armed in ngtcp2 the wait ends no later than the
  timer and no later than the caller's timeout, and it is negative only if the caller's timeout
  is; without a timer it is the caller's timeout, so it is unlimited only when nobody limits it.
\<close>

theorem pump_timeout_bounds:
  "case fst (pump_timeout X caller w) of
     None \<Rightarrow> caller = None \<and> quic_client_expiry X w = None
   | Some t \<Rightarrow>
       (case caller of None \<Rightarrow> 0 \<le> t | Some c \<Rightarrow> t \<le> c \<and> (0 \<le> t \<or> t = c)) \<and>
       (case quic_client_expiry X w of None \<Rightarrow> caller = Some t
        | Some expiry \<Rightarrow> t \<le> max 0 (expiry - fst (clock_ns X w)))"
  by (auto simp: pump_timeout_def Let_def split: option.splits prod.splits)

section \<open>Running the handshake\<close>

text \<open>
  C27. \<open>run\<close> returns normally exactly when the client is bound and finitely many pumps, none of
  which raises, reach a state in which ngtcp2 reports the handshake as completed; it returns in
  the first such state. Unbound it raises NotBound without touching anything.
\<close>

theorem run_completes_handshake:
  "(run X w = Some (Inr (), w') \<longleftrightarrow>
      sock w \<noteq> None \<and> waits (quic_client_handshake_completed_p X) (pump_once X None) w w') \<and>
   (waits (quic_client_handshake_completed_p X) (pump_once X None) w w' \<longrightarrow> x_handshake_completed X (ext_st w')) \<and>
   (sock w = None \<longrightarrow> run X w = Some (rb_raise (QuicError QNotBound), w))"
proof -
  have "quic_client_handshake_completed_p X w'" if "waits (quic_client_handshake_completed_p X) (pump_once X None) w w'"
    using that by (induction rule: waits.induct) auto
  then show ?thesis by (auto simp: run_def pu.loop_waits quic_client_handshake_completed_p_def)
qed

text \<open>A handshake that completes with the first packet sent.\<close>

definition handshake_ext :: "nat ext" where
  "handshake_ext = packets_ext\<lparr>x_handshake_completed := (\<lambda>x. x = 0)\<rparr>"

theorem run_completes_handshake_witness:
  "run handshake_ext ((idle_client 3)\<lparr>sock := None\<rparr>) = Some (rb_raise (QuicError QNotBound), (idle_client 3)\<lparr>sock := None\<rparr>) \<and>
   run handshake_ext (idle_client 0) = Some (Inr (), idle_client 0)"
proof -
  have "quic_client_handshake_completed_p handshake_ext (idle_client 0)"
    by (simp add: quic_client_handshake_completed_p_def handshake_ext_def idle_client_def)
  then have "waits (quic_client_handshake_completed_p handshake_ext) (pump_once handshake_ext None) (idle_client 0) (idle_client 0)"
    by (rule waits.now)
  then show ?thesis
    using run_completes_handshake [of handshake_ext "idle_client 0" "idle_client 0"]
      run_completes_handshake [of handshake_ext "(idle_client 3)\<lparr>sock := None\<rparr>"] by (simp add: idle_client_def)
qed

section \<open>Blocking writes\<close>

lemma client_wf_allocated: "client_wf w \<Longrightarrow> heap w r = Some s \<Longrightarrow> r < next_ref w"
  by (auto simp: client_wf_def registry_wf_def queue_wf_def obj_wf_def not_le intro: ccontr)

lemma write_m_unfold:
  assumes "heap w r = Some s" "has_client s" "bs \<noteq> []"
  shows "quic_stream_write_m X r (write_args (VStr enc bs) fin) w =
    (case write_wait X r (length bs) w of None \<Rightarrow> None
     | Some (Inl e, w1) \<Rightarrow> Some (Inl e, w1)
     | Some (Inr u, w1) \<Rightarrow> Some (stream_enqueue r (VStr enc bs) fin w1))"
  using assms by (simp add: quic_stream_write_m_def write_args_kwarg)

text \<open>
  C11. The blocking \<open>write\<close>, when it returns, returns the size of the whole argument, and has queued
  exactly those bytes, once, as one chunk, together with FIN if it was asked for, in the first
  state after finitely many pumps in which the flow-control window admits all of them.
\<close>

theorem blocking_write_behaviour:
  assumes "heap w r = Some s" "has_client s" "bs \<noteq> []" "length bs < 2 ^ 63"
    and out: "quic_stream_write_m X r (write_args (VStr enc bs) fin) w = Some (Inr n, w')"
  shows "n = int (length bs) \<and> (\<exists>w1 s1. waits (window_open X r (length bs)) (pump_once X None) w w1 \<and>
    heap w1 r = Some s1 \<and> length bs \<le> unat (quic_stream_window_left X (ext_st w1) s1) \<and>
    w' = put_stream r (s1\<lparr>pending_chunks := pending_chunks s1 @ [bs], fin_sent := fin\<rparr>) w1)"
proof -
  from out assms obtain w1 where l: "write_wait X r (length bs) w = Some (Inr (), w1)"
    and e: "stream_enqueue r (VStr enc bs) fin w1 = (Inr n, w')"
    by (auto simp: write_m_unfold split: option.splits prod.splits sum.splits)
  have "window_open X r (length bs) w1"
    using ww.loop_inv [OF l, of "\<lambda>_. True"] by simp
  moreover obtain s1 where s1: "heap w1 r = Some s1" using e by (cases "heap w1 r") (auto simp: stream_enqueue_def on_stream_def)
  moreover have "n = int (length bs) \<and> w' = put_stream r (s1\<lparr>pending_chunks := pending_chunks s1 @ [bs], fin_sent := fin\<rparr>) w1"
    using e s1 assms(3) by (auto simp: stream_enqueue_def on_stream_def enqueue_VStr split: if_splits)
  ultimately show ?thesis
    using l assms(4) by (auto simp: ww.loop_waits window_open_def len_bound)
qed

definition bound_client :: "stream \<Rightarrow> unit client" where
  "bound_client s = \<lparr>ext_st = (), heap = [0 \<mapsto> s], next_ref = 1, streams = [], accept_queue = [], sock = Some 4,
     iv_pump_local_sockaddr = None, iv_pump_remote_sockaddr = None\<rparr>"

theorem blocking_write_behaviour_witness:
  "\<exists>w'. quic_stream_write_m (window_ext 5) 0 (write_args (VStr UTF_8 [1, 2]) True) (bound_client (quic_stream_new 0 True)) =
     Some (Inr 2, w') \<and>
     heap w' 0 = Some ((quic_stream_new 0 True)\<lparr>pending_chunks := [[1, 2]], fin_sent := True\<rparr>)"
proof -
  let ?w = "bound_client (quic_stream_new 0 True)"
  have h: "heap ?w 0 = Some (quic_stream_new 0 True)" by (simp add: bound_client_def)
  have o: "window_open (window_ext 5) 0 2 ?w" by (simp add: window_open_def bound_client_def)
  then have "write_wait (window_ext 5) 0 2 ?w = Some (Inr (), ?w)" by (subst ww.loop_unfold) simp
  then obtain w' where e: "quic_stream_write_m (window_ext 5) 0 (write_args (VStr UTF_8 [1, 2]) True) ?w = Some (Inr 2, w')"
    by (simp add: write_m_unfold [OF h] numeral_2_eq_2 [symmetric]) (simp add: stream_enqueue_def on_stream_def h enqueue_VStr)
  have u: "v = ?w" if "waits (window_open (window_ext 5) 0 2) (pump_once (window_ext 5) None) ?w v" for v
    using that o by (auto elim: waitsE)
  obtain w1 s1 where "waits (window_open (window_ext 5) 0 2) (pump_once (window_ext 5) None) ?w w1" "heap w1 0 = Some s1"
    "w' = put_stream 0 (s1\<lparr>pending_chunks := pending_chunks s1 @ [[1, 2]], fin_sent := True\<rparr>) w1"
    using blocking_write_behaviour [OF h _ _ _ e] by (auto simp: numeral_2_eq_2 [symmetric])
  moreover from this u [of w1] h have "s1 = quic_stream_new 0 True" by simp
  ultimately show ?thesis using e by (simp add: put_stream_def)
qed

text \<open>
  C36. A blocking write to a stream that is gone never returns. Once a stream is closed ngtcp2 has
  no window for it any more (it answers 0 for an unknown stream), and the window is waited for
  before the closed flag is looked at: as long as pumping succeeds the call pumps forever
  instead of raising StreamClosed, which an immediate enqueue would do.
\<close>

theorem write_on_closed_stream_hangs:
  assumes wf: "client_wf w" and h: "heap w r = Some s" "has_client s" "closed s" and bs: "bs \<noteq> []" "length bs < 2 ^ 63"
    and gone: "\<And>x. x_max_stream_data_left X (stream_id s) x = 0"
    and I: "I w" and pumps: "\<And>v. I v \<Longrightarrow> \<exists>v'. pump_once X None v = Some (Inr (), v') \<and> I v'"
  shows "quic_stream_write_m X r (write_args (VStr enc bs) fin) w = None \<and>
    stream_enqueue r (VStr enc bs) fin w = (rb_raise (QuicError QStreamClosed), w)"
proof -
  let ?J = "\<lambda>v. I v \<and> keeps_bytes r w v"
  have "write_wait X r (length bs) w = None"
  proof (rule ww.loop_diverges [of ?J])
    show "?J w" using I by (simp add: keeps_refl)
    fix v
    assume J: "?J v"
    then obtain s' where s': "heap v r = Some s'" "stream_id s' = stream_id s"
      using h(1) client_wf_allocated [OF wf h(1)] by (auto simp: keeps_bytes_def pumped_def)
    have "quic_stream_window_left X (ext_st v) s' = 0"
      using gone s'(2) by (simp add: quic_stream_window_left_def Let_def word_gt_0)
    moreover have "unat (of_nat (length bs) :: uint64) \<noteq> 0" using bs by (simp add: unat_of_nat64)
    then have "(of_nat (length bs) :: uint64) \<noteq> 0" by auto
    ultimately have "\<not> window_open X r (length bs) v"
      using s'(1) by (simp add: window_open_def)
    moreover obtain v' where "pump_once X None v = Some (Inr (), v')" "I v'" using pumps J by blast
    moreover from this J have "keeps_bytes r w v'" using kb.once_rel keeps_trans by blast
    ultimately show "\<not> window_open X r (length bs) v \<and> (\<exists>w1. pump_once X None v = Some (Inr (), w1) \<and> ?J w1)" by blast
  qed
  then show ?thesis
    using h bs by (simp add: write_m_unfold) (simp add: stream_enqueue_def on_stream_def enqueue_VStr)
qed

lemma quiet_pump:
  "pump_once sample_ext None (bound_client s) = Some (Inr (), bound_client s)"
proof -
  have "quic_client_write_pkt sample_ext \<lparr>positional = [], kwargs = None\<rparr> (bound_client s) = (Inr None, Some [], bound_client s)"
    by (simp add: quic_client_write_pkt_def prepare_buffer_def rb_scan_args_def NIL_P_def Let_def writev_call_def
        quic_client_pick_send_stream_def hash_values_def bound_client_def quic_now_def account_selected_def sample_ext_def)
  then have "pump_flush sample_ext so (bound_client s) = Some (Inr (), bound_client s)" for so
    by (simp add: pump_flush.simps)
  then show ?thesis
    by (simp add: pump_once_def bound_client_def pump_wait_def bindW_def pump_select_def pump_timeout_def
        quic_client_expiry_def quic_client_handle_expiry_def quic_now_def sample_ext_def)
qed

theorem write_on_closed_stream_hangs_witness:
  "quic_stream_write_m sample_ext 0 (write_args (VStr UTF_8 [1]) False)
     (bound_client ((quic_stream_new 0 True)\<lparr>closed := True\<rparr>)) = None"
proof -
  let ?s = "(quic_stream_new 0 True)\<lparr>closed := True\<rparr>"
  have wf: "client_wf (bound_client ?s)"
    by (simp add: bound_client_def client_wf_def registry_wf_def queue_wf_def obj_wf_def stream_wf_def LL2NUM_def)
  show ?thesis
    using write_on_closed_stream_hangs [OF wf, of 0 ?s "[1]" sample_ext "\<lambda>v. v = bound_client ?s" UTF_8 False]
    by (simp add: quiet_pump) (simp add: bound_client_def sample_ext_def)
qed

section \<open>Blocking reads\<close>


text \<open>\<open>pumps X w w'\<close>: one successful \<open>pump_once\<close> leads from \<open>w\<close> to \<open>w'\<close>.\<close>

definition pumps :: "'x ext \<Rightarrow> 'x client \<Rightarrow> 'x client \<Rightarrow> bool" where
  "pumps X w w' \<longleftrightarrow> pump_once X None w = Some (Inr (), w')"



definition ended_stream :: stream where
  "ended_stream = (quic_stream_new 0 True)\<lparr>fin_received := True\<rparr>"



text \<open>
  C35. \<open>read(length)\<close> returns, when it returns, the first \<open>length\<close> bytes of the buffer in the first
  state after finitely many pumps in which a byte is there, and takes exactly those out. It
  never returns nil: the condition it waits for tests \<open>@fin_received\<close>, which nothing assigns, so
  at the end of the stream it goes on pumping instead of returning nil as documented.
\<close>

theorem read_some_behaviour:
  assumes h: "heap w r = Some s" "has_client s"
    and out: "stream_read X r (VInt n) w = Some (Inr v, w')"
  shows "\<exists>w1 s1. waits (readable r) (pump_once X None) w w1 \<and> heap w1 r = Some s1 \<and> recv_buffer s1 \<noteq> [] \<and>
    v = VStr ASCII_8BIT (take (nat n) (recv_buffer s1)) \<and>
    w' = put_stream r (s1\<lparr>recv_buffer := drop (nat n) (recv_buffer s1)\<rparr>) w1"
proof -
  obtain w1 where l: "pump_until X (readable r) w = Some (Inr (), w1)"
    using out h by (auto simp: stream_read_def NIL_P_def read_some_def split: option.splits prod.splits sum.splits)
  have "readable r w1" using pu.loop_inv [OF l, of "\<lambda>_. True"] by simp
  then obtain s1 where s1: "heap w1 r = Some s1" "recv_buffer s1 \<noteq> []"
    by (auto simp: readable_def iv_fin_received_def RTEST_def split: option.splits)
  then have ne: "quic_stream_read_nonblock_m (VInt n) s1 = Inl e \<Longrightarrow> exn_class e \<noteq> EOFError" for e
    by (auto simp: quic_stream_read_nonblock_m_def Let_def split: if_splits)
  show ?thesis
  proof (cases "quic_stream_read_nonblock_m (VInt n) s1")
    case (Inl e)
    with ne out l h s1(1) show ?thesis
      by (simp add: stream_read_def NIL_P_def read_some_def stream_read_nonblock_def on_stream_def)
  next
    case (Inr a)
    then obtain bs s2 where a: "quic_stream_read_nonblock_m (VInt n) s1 = Inr (bs, s2)" by (cases a) auto
    then have "bs = take (nat n) (recv_buffer s1)" "s2 = s1\<lparr>recv_buffer := drop (nat n) (recv_buffer s1)\<rparr>"
      by (simp_all add: read_nonblock_Inr_iff)
    with a out l h s1 show ?thesis
      by (auto simp: stream_read_def NIL_P_def read_some_def stream_read_nonblock_def on_stream_def pu.loop_waits)
  qed
qed

theorem read_some_behaviour_witness:
  "\<exists>w'. stream_read sample_ext 0 (VInt 2) (bound_client (ended_stream\<lparr>recv_buffer := [5, 6, 7]\<rparr>)) =
     Some (Inr (VStr ASCII_8BIT [5, 6]), w')"
proof -
  let ?s = "ended_stream\<lparr>recv_buffer := [5, 6, 7]\<rparr>"
  let ?w = "bound_client ?s"
  have h: "heap ?w 0 = Some ?s" "has_client ?s" by (simp_all add: bound_client_def ended_stream_def)
  have e: "readable 0 ?w" by (simp add: readable_def h)
  have "pump_until sample_ext (readable 0) ?w = Some (Inr (), ?w)" by (subst pump_until.simps) (simp add: e)
  then obtain v w' where o: "stream_read sample_ext 0 (VInt 2) ?w = Some (Inr v, w')"
    using h by (simp add: stream_read_def NIL_P_def read_some_def stream_read_nonblock_def on_stream_def
        quic_stream_read_nonblock_m_def)
  obtain w1 s1 where "waits (readable 0) (pump_once sample_ext None) ?w w1" "heap w1 0 = Some s1"
    "v = VStr ASCII_8BIT (take 2 (recv_buffer s1))"
    using read_some_behaviour [OF h o] by auto
  moreover from this(1,2) e h have "s1 = ?s" by (auto elim: waitsE)
  ultimately have "v = VStr ASCII_8BIT [5, 6]" by simp
  with o show ?thesis by blast
qed

end
