(* ===== verification/Io_Safety.thy ===== *)
theory Io_Safety
  imports Io_Behaviour
begin

unbundle bit_operations_syntax

text \<open>
  Accepting streams, and the safety of the blocking layer: every blocking call is a run of the
  packet methods and of calls to the operating system (\<open>io_step\<close>, the second instance of
  \<open>io_relation\<close>), so it keeps the client's invariant and never takes back what the client has
  promised, as long as ngtcp2 invokes admissible callbacks in the states of such a run.
\<close>

section \<open>Accepting\<close>

lemma accept_loop_unlimited:
  assumes l: "accept_loop X None w = Some (r, w')"
  shows "r \<noteq> Inr None"
proof -
  have "X = X \<longrightarrow> None = (None :: int option) \<longrightarrow> fst (r, w') \<noteq> Inr None"
    by (rule accept_loop.raw_induct [of "\<lambda>X' d w y. X' = X \<longrightarrow> d = None \<longrightarrow> fst y \<noteq> Inr None", OF _ l])
      (auto split: option.splits sum.splits prod.splits)
  then show ?thesis by simp
qed

text \<open>
  \<open>accept_stream\<close>. A queued stream is returned at once, whatever the timeout and without any
  I/O; with timeout 0 an empty queue gives nil at once; and without a timeout the call never
  returns nil.
\<close>

theorem accept_stream_behaviour:
  "(case accept_queue w of
      st # q \<Rightarrow> accept_stream X timeout w = Some (Inr (Some st), w\<lparr>accept_queue := q\<rparr>)
    | [] \<Rightarrow> accept_stream X (Some 0) w = Some (Inr None, w)) \<and>
   accept_stream X None w \<noteq> Some (Inr None, w')"
proof -
  have "accept_queue w = [] \<Longrightarrow> w\<lparr>accept_queue := []\<rparr> = w" by (cases w) simp
  then show ?thesis
    using accept_loop_unlimited [of X] by (cases "accept_queue w") (fastforce simp: accept_stream_def)+
qed

section \<open>The steps of a blocking call\<close>

text \<open>
  What a blocking call is made of: the packet methods with the arguments the loop gives them, the
  calls to the operating system, and the assignments to the two memoised addresses.
\<close>

inductive io_step :: "'x ext \<Rightarrow> 'x client \<Rightarrow> 'x client \<Rightarrow> bool" for X where
  packet_out: "quic_client_write_pkt X \<lparr>positional = [], kwargs = None\<rparr> w = (res, buf, w') \<Longrightarrow> io_step X w w'"
| packet_in: "quic_client_read_pkt X args (False, w) = (ures, lk, w') \<Longrightarrow> io_step X w w'"
| timer: "quic_client_handle_expiry X w = (ures, w') \<Longrightarrow> io_step X w w'"
| environment: "env_call X (ext_st w) x \<Longrightarrow> io_step X w (w\<lparr>ext_st := x\<rparr>)"
| memo_local: "io_step X w (w\<lparr>iv_pump_local_sockaddr := a\<rparr>)"
| memo_remote: "io_step X w (w\<lparr>iv_pump_remote_sockaddr := a\<rparr>)"

interpretation ios: io_relation X "(io_step X)\<^sup>*\<^sup>*" for X :: "'x ext"
  by unfold_locales (auto intro: io_step.intros r_into_rtranclp transpI)

text \<open>
  The callbacks ngtcp2 invokes, should a packet method be called in the state \<open>w\<close>, are admissible:
  it acknowledges no more bytes of a stream than it was given (\<open>events_ok\<close>). The hypothesis of
  the properties below is that this holds in the states a run from \<open>w\<close> reaches; nothing is asked of
  combinations of a client and a connection that no run produces.
\<close>

definition callbacks_ok_at :: "'x ext \<Rightarrow> 'x client \<Rightarrow> bool" where
  "callbacks_ok_at X w \<longleftrightarrow>
     (\<forall>ret x'. writev_call X w = (ret, x') \<longrightarrow> events_ok (consts_of X) (w\<lparr>ext_st := x'\<rparr>) (wv_events ret)) \<and>
     (\<forall>pth packet ts x1 rv evs x2. quic_now X (ext_st w) = (ts, x1) \<longrightarrow>
        x_read_pkt X pth packet ts x1 = ((rv, evs), x2) \<longrightarrow> events_ok (consts_of X) (w\<lparr>ext_st := x2\<rparr>) evs) \<and>
     (\<forall>ts x1 rv evs x2. quic_now X (ext_st w) = (ts, x1) \<longrightarrow>
        x_handle_expiry X ts x1 = ((rv, evs), x2) \<longrightarrow> events_ok (consts_of X) (w\<lparr>ext_st := x2\<rparr>) evs)"

definition callbacks_ok_from :: "'x ext \<Rightarrow> 'x client \<Rightarrow> bool" where
  "callbacks_ok_from X w \<longleftrightarrow> (\<forall>v. (io_step X)\<^sup>*\<^sup>* w v \<longrightarrow> callbacks_ok_at X v)"

lemma callbacks_ok_later: "callbacks_ok_from X w \<Longrightarrow> (io_step X)\<^sup>*\<^sup>* w v \<Longrightarrow> callbacks_ok_from X v"
  unfolding callbacks_ok_from_def by (meson rtranclp_trans)

section \<open>The invariant through the blocking calls\<close>

lemma advances_same:
  "client_wf w \<Longrightarrow> heap w' = heap w \<Longrightarrow> streams w' = streams w \<Longrightarrow> accept_queue w' = accept_queue w \<Longrightarrow>
   next_ref w' = next_ref w \<Longrightarrow> advances w w'"
  by (auto simp: advances_def client_wf_def registry_wf_def queue_wf_def obj_wf_def client_le_def stream_le_refl)

lemma io_step_advances:
  assumes "io_step X w w'" "writev_contract X" "callbacks_ok_at X w" "client_wf w"
  shows "advances w w'"
  using assms(1)
proof cases
  case (packet_out res buf)
  obtain ret x' where c: "writev_call X w = (ret, x')" by (cases "writev_call X w")
  then have "events_ok (consts_of X) (w\<lparr>ext_st := x'\<rparr>) (wv_events ret)"
    using assms(3) unfolding callbacks_ok_at_def by blast
  from advances_write_pkt [OF assms(4,2) c this, of "\<lparr>positional = [], kwargs = None\<rparr>"] packet_out
  show ?thesis by simp
next
  case (packet_in args ures lk)
  have "advances w (snd (snd (quic_client_read_pkt X args (False, w))))"
    using assms(3,4) unfolding callbacks_ok_at_def by (intro advances_read_pkt) blast+
  with packet_in show ?thesis by simp
next
  case (timer ures)
  obtain ts x1 where t: "quic_now X (ext_st w) = (ts, x1)" by (cases "quic_now X (ext_st w)")
  obtain rv evs x2 where c: "x_handle_expiry X ts x1 = ((rv, evs), x2)" by (metis prod.collapse)
  have "events_ok (consts_of X) (w\<lparr>ext_st := x2\<rparr>) evs"
    using assms(3) t c unfolding callbacks_ok_at_def by blast
  from advances_handle_expiry [OF assms(4) t c this] timer show ?thesis by simp
qed (simp_all add: advances_same assms(4))

lemma io_run_advances:
  "(io_step X)\<^sup>*\<^sup>* w v \<Longrightarrow> writev_contract X \<Longrightarrow> callbacks_ok_from X w \<Longrightarrow> client_wf w \<Longrightarrow> advances w v"
proof (induction rule: rtranclp_induct)
  case (step v u)
  then have "advances w v" "callbacks_ok_at X v" by (simp_all add: callbacks_ok_from_def)
  moreover from this have "advances v u" using step io_step_advances by (auto simp: advances_def)
  ultimately show ?case by (blast intro: advances_trans)
qed (simp add: advances_refl)

text \<open>
  C13. The blocking calls are safe. From a well-formed client, \<open>pump_once\<close> (with any timeout),
  \<open>run\<close> and waiting for flow control, however they end, leave a well-formed client in which every
  stream object still exists, no flag of a stream has been cleared (a finished or closed stream
  stays so) and no accepted stream is queued again. ngtcp2 may invoke any callbacks meanwhile,
  acknowledgements included, that are admissible in the states of the run.
\<close>

theorem blocking_calls_safe:
  assumes X: "writev_contract X" "callbacks_ok_from X w" and wf: "client_wf w"
    and call: "pump_once X t w = Some (r, w') \<or> run X w = Some (r, w') \<or> write_wait X q needed w = Some (r, w')"
  shows "client_wf w' \<and> client_le w w'"
proof -
  have "(io_step X)\<^sup>*\<^sup>* w w'"
    using call ios.once_rel ios.run_rel ios.write_wait_rel by blast
  from io_run_advances [OF this X wf] show ?thesis by (simp add: advances_def)
qed

section \<open>A connection that acknowledges data\<close>

text \<open>
  An ngtcp2 that talks: it frames all bytes it is offered and counts them (the second component of
  its state), and the next packet from the peer acknowledges them on stream 0, opens stream 1 and
  brings two bytes on it. The socket always has a packet. The first component is the set of live
  library objects.
\<close>

definition peer_events :: "nat \<Rightarrow> ngtcp2_event list" where
  "peer_events n = (if n = 0 then [] else
     [Acked_stream_data_offset 0 0 (of_nat n), Stream_open 1, Recv_stream_data 0 1 0 [7, 8]])"

definition peer_ext :: "(resource set \<times> nat) ext" where
  "peer_ext = sample_ext\<lparr>
     x_SSL_CTX_new := (\<lambda>(L, n). case x_SSL_CTX_new ledger_ext L of (h, L') \<Rightarrow> (h, (L', n))),
     x_SSL_new := (\<lambda>ctx (L, n). case x_SSL_new ledger_ext ctx L of (h, L') \<Rightarrow> (h, (L', n))),
     x_client_new := (\<lambda>d s p ver se tp (L, n). case x_client_new ledger_ext d s p ver se tp L of (r, L') \<Rightarrow> (r, (L', n))),
     x_conn_del := (\<lambda>h (L, n). (x_conn_del ledger_ext h L, n)), x_SSL_free := (\<lambda>h (L, n). (x_SSL_free ledger_ext h L, n)),
     x_SSL_CTX_free := (\<lambda>h (L, n). (x_SSL_CTX_free ledger_ext h L, n)),
     x_writev_stream := (\<lambda>flags sid data destlen ts (L, n). case data of
         None \<Rightarrow> (\<lparr>wv_n = 0, wv_pdatalen = -1, wv_packet = [], wv_events = []\<rparr>, (L, n))
       | Some d \<Rightarrow> if destlen = 0 then (\<lparr>wv_n = 0, wv_pdatalen = -1, wv_packet = [], wv_events = []\<rparr>, (L, n))
           else (\<lparr>wv_n = 1, wv_pdatalen = int (length d), wv_packet = [9], wv_events = []\<rparr>, (L, n + length d))),
     x_read_pkt := (\<lambda>p pkt ts (L, n). ((0, peer_events n), (L, 0))),
     x_sock_select := (\<lambda>so t x. (Inr True, x)),
     x_sock_recvfrom := (\<lambda>so len x. (Inr [9], x))\<rparr>"

text \<open>
  The client with five bytes queued on stream 0, after they were framed, and after the peer
  answered; in each, the memoised addresses can be anything.
\<close>

definition asking :: "resource set \<Rightarrow> (resource set \<times> nat) client" where
  "asking L = \<lparr>ext_st = (L, 0), heap = [0 \<mapsto> (quic_stream_new 0 True)\<lparr>fin_sent := False, pending_chunks := [[1, 2, 3, 4, 5]]\<rparr>],
     next_ref = 1, streams = [(0, 0)], accept_queue = [], sock = Some 4,
     iv_pump_local_sockaddr = None, iv_pump_remote_sockaddr = None\<rparr>"

definition asked :: "resource set \<Rightarrow> (resource set \<times> nat) client" where
  "asked L = (asking L)\<lparr>ext_st := (L, 5),
     heap := [0 \<mapsto> (quic_stream_new 0 True)\<lparr>fin_sent := False, pending_chunks := [[1, 2, 3, 4, 5]], sent_offset := 5\<rparr>]\<rparr>"

definition answered :: "resource set \<Rightarrow> (resource set \<times> nat) client" where
  "answered L = (asking L)\<lparr>next_ref := 2, streams := [(0, 0), (1, 1)], accept_queue := [1],
     heap := [0 \<mapsto> (quic_stream_new 0 True)\<lparr>fin_sent := False, sent_offset := 5, acked_offset := 5, pending_shifted := 5, pending_chunks := []\<rparr>,
       1 \<mapsto> sample_stream]\<rparr>"

definition memo :: "bytes option \<Rightarrow> bytes option \<Rightarrow> 'x client \<Rightarrow> 'x client" where
  "memo a b w = w\<lparr>iv_pump_local_sockaddr := a, iv_pump_remote_sockaddr := b\<rparr>"

lemma peer_consts [simp]: "consts_of peer_ext = sample_consts"
  by (simp add: peer_ext_def)

lemma peer_writev: "writev_contract peer_ext"
  by (auto simp: writev_contract_def peer_ext_def split: option.splits if_splits)

lemmas talk_defs = memo_def asking_def asked_def answered_def

text \<open>What the three packet methods do in each of the three states.\<close>

lemma peer_pick:
  "quic_client_pick_send_stream K (memo a b (asking L)) = Some \<lparr>pk_ref = 0, pk_datav = Some [1, 2, 3, 4, 5], pk_flags = 0, pk_sid = 0\<rparr>"
  "quic_client_pick_send_stream K (memo a b (asked L)) = None"
  "quic_client_pick_send_stream K (memo a b (answered L)) = None"
  by (simp_all add: quic_client_pick_send_stream_def hash_values_def stream_pick_def sample_stream_def talk_defs)

lemma peer_writev_call:
  "writev_call peer_ext (memo a b (asking L)) = (\<lparr>wv_n = 1, wv_pdatalen = 5, wv_packet = [9], wv_events = []\<rparr>, (L, 5))"
  "writev_call peer_ext (memo a b (asked L)) = (\<lparr>wv_n = 0, wv_pdatalen = -1, wv_packet = [], wv_events = []\<rparr>, (L, 5))"
  "writev_call peer_ext (memo a b (answered L)) = (\<lparr>wv_n = 0, wv_pdatalen = -1, wv_packet = [], wv_events = []\<rparr>, (L, 0))"
  unfolding writev_call_def Let_def peer_pick
  by (simp_all add: quic_now_def peer_ext_def sample_ext_def talk_defs QUIC_WRITE_PKT_BUFLEN_def sample_consts_def)

lemma fresh_prepared:
  "bindE (rb_scan_args 0 1 False \<lparr>positional = [], kwargs = None\<rparr>) (\<lambda>(pos, opts). prepare_buffer K (pos ! 0)) =
   Inr ([], QUIC_WRITE_PKT_BUFLEN K)"
  by (simp add: rb_scan_args_def prepare_buffer_def NIL_P_def Let_def)

lemma peer_write_pkt:
  "quic_client_write_pkt peer_ext \<lparr>positional = [], kwargs = None\<rparr> (memo a b (asking L)) = (Inr (Some [9]), Some [9], memo a b (asked L))"
  "quic_client_write_pkt peer_ext \<lparr>positional = [], kwargs = None\<rparr> (memo a b (asked L)) = (Inr None, Some [], memo a b (asked L))"
  "quic_client_write_pkt peer_ext \<lparr>positional = [], kwargs = None\<rparr> (memo a b (answered L)) = (Inr None, Some [], memo a b (answered L))"
  unfolding quic_client_write_pkt_def Let_def fresh_prepared peer_writev_call peer_pick
  by (simp_all add: account_selected_def stream_account_def overlay_def put_stream_def talk_defs)

lemma peer_now: "quic_now peer_ext x = (0, x)"
  by (simp add: quic_now_def peer_ext_def sample_ext_def)

lemma peer_events_run:
  "run_events sample_consts (peer_events 5) (memo a b (asked L)\<lparr>ext_st := (L, 0)\<rparr>) = memo a b (answered L)"
  by (simp add: peer_events_def quic_acked_stream_data_offset_cb_def quic_stream_open_cb_def
      quic_recv_stream_data_cb_def quic_client_lookup_stream_def register_stream_def put_stream_def stream_acked_def
      stream_recv_def LL2NUM_def sample_stream_def ary_push_def sample_consts_def talk_defs)

lemma peer_read_body:
  "quic_read_pkt_body peer_ext pth pkt (lk, memo a b (asking L)) = (Inr (), lk, memo a b (asking L))"
  "quic_read_pkt_body peer_ext pth pkt (lk, memo a b (asked L)) = (Inr (), lk, memo a b (answered L))"
  "quic_read_pkt_body peer_ext pth pkt (lk, memo a b (answered L)) = (Inr (), lk, memo a b (answered L))"
  using peer_events_run [of L a b]
  by (simp_all add: quic_read_pkt_body_def peer_now) (simp_all add: peer_ext_def talk_defs peer_events_def)

text \<open>No run leaves the three states, and in each of them the callbacks are admissible.\<close>

definition in_talk :: "resource set \<Rightarrow> (resource set \<times> nat) client \<Rightarrow> bool" where
  "in_talk L v \<longleftrightarrow> (\<exists>a b. v = memo a b (asking L) \<or> v = memo a b (asked L) \<or> v = memo a b (answered L))"

lemma in_talkI: "in_talk L (memo a b (asking L))" "in_talk L (memo a b (asked L))" "in_talk L (memo a b (answered L))"
  by (auto simp: in_talk_def)

lemma in_talkE:
  assumes "in_talk L v"
  obtains a b where "v = memo a b (asking L)" | a b where "v = memo a b (asked L)" | a b where "v = memo a b (answered L)"
  using assms by (auto simp: in_talk_def)

lemma memo_memo: "(memo a b w)\<lparr>iv_pump_local_sockaddr := c\<rparr> = memo c b w" "(memo a b w)\<lparr>iv_pump_remote_sockaddr := c\<rparr> = memo a c w"
  by (simp_all add: memo_def)

lemma peer_env: "env_call peer_ext x x' \<Longrightarrow> x' = x"
  by (erule env_call.cases) (auto simp: peer_ext_def sample_ext_def)

lemma in_talk_read:
  assumes "in_talk L v" "quic_client_read_pkt peer_ext args (False, v) = (r, lk, u)"
  shows "in_talk L u"
proof (cases "read_pkt_args args")
  case (Inr p)
  then obtain pkt pth where "read_pkt_args args = Inr (pkt, pth)" by (cases p) auto
  with assms show ?thesis
    by (auto elim!: in_talkE simp: quic_client_read_pkt_def rb_ensure_def quic_read_pkt_unlock_def peer_read_body in_talkI)
qed (use assms in \<open>auto simp: quic_client_read_pkt_def\<close>)

lemma peer_expiry: "quic_client_handle_expiry peer_ext w = (Inr (), w)"
  by (simp add: quic_client_handle_expiry_def peer_now) (simp add: peer_ext_def sample_ext_def)

lemma in_talk_step: "io_step peer_ext v u \<Longrightarrow> in_talk L v \<Longrightarrow> in_talk L u"
proof (induction rule: io_step.induct)
  case (packet_out w res buf w')
  then show ?case by (auto elim!: in_talkE simp: peer_write_pkt in_talkI)
next
  case (environment w x)
  with peer_env show ?case by fastforce
qed (auto elim!: in_talkE simp: peer_expiry memo_memo in_talkI dest: in_talk_read [OF in_talkI(1)] in_talk_read [OF in_talkI(2)] in_talk_read [OF in_talkI(3)])

lemma peer_acks_ok:
  "events_ok sample_consts (memo a b (asking L)) (peer_events 0)"
  "events_ok sample_consts ((memo a b (asked L))\<lparr>ext_st := (L, 0)\<rparr>) (peer_events 5)"
  "events_ok sample_consts (memo a b (answered L)) (peer_events 0)"
  by (simp_all add: peer_events_def quic_client_lookup_stream_def LL2NUM_def talk_defs)

lemma in_talk_ok: "in_talk L v \<Longrightarrow> callbacks_ok_at peer_ext v"
  unfolding callbacks_ok_at_def in_talk_def peer_now peer_consts
  using peer_acks_ok
  by (auto simp: peer_writev_call) (auto simp: peer_ext_def sample_ext_def talk_defs)

lemma in_talk_from: "in_talk L w \<Longrightarrow> callbacks_ok_from peer_ext w"
proof -
  assume w: "in_talk L w"
  have "in_talk L v" if "(io_step peer_ext)\<^sup>*\<^sup>* w v" for v
    using that w by (induction rule: rtranclp_induct) (auto intro: in_talk_step)
  then show ?thesis using in_talk_ok by (auto simp: callbacks_ok_from_def)
qed

lemma asking_wf: "client_wf (asking L)"
  by (simp add: asking_def client_wf_def registry_wf_def queue_wf_def obj_wf_def stream_wf_def LL2NUM_def)

lemma peer_pump: "pump_once peer_ext None (asking L) = Some (Inr (), memo (Some []) (Some []) (answered L))"
proof -
  have m: "asking L = memo None None (asking L)" by (simp add: memo_def asking_def)
  have send: "x_sock_send peer_ext so d x = (Inr (), x)" for so d x by (simp add: peer_ext_def sample_ext_def)
  have id: "(memo a b (asked L))\<lparr>ext_st := ext_st (memo a b (asked L))\<rparr> = memo a b (asked L)" for a b
    by (simp add: talk_defs)
  have "pump_flush peer_ext so (memo None None (asked L)) = Some (Inr (), memo None None (asked L))" for so
    by (subst pump_flush.simps) (simp add: peer_write_pkt)
  then have f: "pump_flush peer_ext so (asking L) = Some (Inr (), memo None None (asked L))" for so
    by (subst m, subst pump_flush.simps) (simp add: peer_write_pkt send id)
  have s: "pump_select peer_ext so None w = (Inr True, w)" for so w
    by (simp add: pump_select_def pump_timeout_def quic_client_expiry_def peer_ext_def sample_ext_def)
  have d: "pump_recvfrom peer_ext so w = (Inr [9], w)" for so w
    by (simp add: pump_recvfrom_def peer_ext_def)
  have l: "pump_local_sockaddr peer_ext (memo None b v) = (Inr [], memo (Some []) b v)" for b v
    by (simp add: pump_local_sockaddr_def memo_def peer_ext_def sample_ext_def)
  have r: "pump_remote_sockaddr peer_ext so (memo a None v) = (Inr [], memo a (Some []) v)" for so a v
    by (simp add: pump_remote_sockaddr_def memo_def peer_ext_def sample_ext_def)
  have p: "pump_read_pkt peer_ext [9] [] [] (memo a b (asked L)) = (Inr (), memo a b (answered L))" for a b
    by (simp add: pump_read_pkt_def quic_client_read_pkt_def read_pkt_args_def rb_scan_args_def kw_aref_def NIL_P_def
        quic_require_binary_def rb_ensure_def quic_read_pkt_unlock_def peer_read_body)
  have "sock (asking L) = Some 4" by (simp add: asking_def)
  then show ?thesis by (simp add: pump_once_def f pump_wait_def bindW_def s d l r p)
qed

text \<open>Five bytes are sent and acknowledged within one pump, and the peer's stream is accepted.\<close>

theorem blocking_calls_safe_witness:
  "\<exists>w'. pump_once peer_ext None (asking {}) = Some (Inr (), w') \<and> client_wf w' \<and> client_le (asking {}) w' \<and>
     acked_offset (the (heap w' 0)) = 5 \<and> accept_queue w' = [1]"
proof -
  have "in_talk {} (asking {})" using in_talkI(1) [of "{}" None None] by (simp add: memo_def asking_def)
  from blocking_calls_safe [OF peer_writev in_talk_from [OF this] asking_wf, of None "Inr ()"] peer_pump [of "{}"]
  show ?thesis by (auto simp: talk_defs)
qed

section \<open>Writing to a finished stream\<close>

lemma finished_later:
  assumes "client_init w0" "(client_step X)\<^sup>*\<^sup>* w0 w" "(client_step X)\<^sup>*\<^sup>* w w'" "writev_contract X"
    and "heap w r = Some s" "fin_sent s \<or> reset s \<or> closed s"
  obtains s' where "client_wf w'" "heap w' r = Some s'" "has_client s'" "fin_sent s' \<or> reset s' \<or> closed s'"
proof -
  have "client_wf w" using cl.inv_reachable [OF assms(1,2)] assms(4) by simp
  then have "advances w w'" using mono.rel_run [OF assms(3)] assms(4) by (simp add: monotone_from_def)
  with assms(5,6) obtain s' where "client_wf w'" "heap w' r = Some s'" "fin_sent s' \<or> reset s' \<or> closed s'"
    unfolding advances_def client_le_def stream_le_def by blast
  with that show ?thesis using client_wf_obj by (auto simp: obj_wf_def)
qed

lemma enqueue_refused:
  "heap w r = Some s \<Longrightarrow> fin_sent s \<or> reset s \<or> closed s \<Longrightarrow>
   stream_enqueue r (VStr enc bs) fin w = (rb_raise (QuicError QStreamClosed), w)"
  by (auto simp: stream_enqueue_def on_stream_def enqueue_VStr)

text \<open>The blocking write of a finished stream: whatever the pumps bring, it queues nothing.\<close>

lemma finished_write_m:
  assumes wf: "client_wf w" and h: "heap w r = Some s" "has_client s" and f: "fin_sent s \<or> reset s \<or> closed s"
    and bs: "bs \<noteq> []" and out: "quic_stream_write_m X r (write_args (VStr enc bs) fin) w = Some (res, v)"
  shows "(\<exists>e. res = Inl e) \<and> (\<exists>u. heap v r = Some u \<and> pumped s u)"
proof -
  obtain r1 w1 where l: "write_wait X r (length bs) w = Some (r1, w1)"
    using out bs by (auto simp: write_m_unfold [OF h] split: option.splits)
  obtain u where u: "heap w1 r = Some u" "pumped s u"
    using kb.write_wait_rel [OF l] h(1) client_wf_allocated [OF wf h(1)] by (rule keeps_bytesD)
  then have "fin_sent u \<or> reset u \<or> closed u" using f by (auto simp: pumped_def)
  then have "stream_enqueue r (VStr enc bs) fin w1 = (rb_raise (QuicError QStreamClosed), w1)"
    by (rule enqueue_refused [OF u(1)])
  with out l bs u show ?thesis by (cases r1) (auto simp: write_m_unfold [OF h])
qed

text \<open>
  C21. Once the write side of a stream is finished (FIN queued, reset, or closed), no method queues
  another byte on it, in any later state. \<open>write_nonblock\<close> changes nothing and raises StreamClosed,
  or WaitWritable when there are bytes to write and the window is zero; \<open>close_write\<close> changes
  nothing, and is silent only if FIN is queued already; the blocking \<open>write\<close> of an empty String
  raises StreamClosed at once, and of a non-empty one it may wait forever or raise after some
  pumps, but it never returns a value, and the chunks of the stream are those from before the call
  less what was acknowledged during it.
\<close>

theorem finished_stream_rejects_writes:
  assumes "client_init w0" "(client_step X)\<^sup>*\<^sup>* w0 w" "(client_step X)\<^sup>*\<^sup>* w w'" "writev_contract X"
    and "heap w r = Some s" "fin_sent s \<or> reset s \<or> closed s"
  shows "\<exists>s'. heap w' r = Some s' \<and>
    stream_write_nonblock X r (write_args (VStr enc bs) fin) w' =
      (rb_raise (QuicError (if bs \<noteq> [] \<and> quic_stream_window_left X (ext_st w') s' = 0 then QWaitWritable else QStreamClosed)), w') \<and>
    stream_close_write r w' = (if fin_sent s' then Inr () else rb_raise (QuicError QStreamClosed), w') \<and>
    (if bs = [] then quic_stream_write_m X r (write_args (VStr enc bs) fin) w' = Some (rb_raise (QuicError QStreamClosed), w')
     else case quic_stream_write_m X r (write_args (VStr enc bs) fin) w' of None \<Rightarrow> True
       | Some (res, v) \<Rightarrow> (\<exists>e. res = Inl e) \<and>
           (\<exists>u dropped. heap v r = Some u \<and> pending_chunks s' = dropped @ pending_chunks u \<and> fin_sent u = fin_sent s'))"
proof -
  obtain s' where wf: "client_wf w'" and h: "heap w' r = Some s'" "has_client s'" and f: "fin_sent s' \<or> reset s' \<or> closed s'"
    using assms by (rule finished_later)
  have put: "put_stream r s' w' = w'" using h(1) by (cases w') (auto simp: put_stream_def)
  have slice: "quic_stream_enqueue (VStr e b) fi s' = rb_raise (QuicError QStreamClosed)" for e b fi
    using f by (auto simp: enqueue_VStr)
  have "stream_write_nonblock X r (write_args (VStr enc bs) fin) w' =
      (rb_raise (QuicError (if bs \<noteq> [] \<and> quic_stream_window_left X (ext_st w') s' = 0 then QWaitWritable else QStreamClosed)), w')"
    using h slice
    by (simp add: stream_write_nonblock_def on_stream_def quic_stream_write_nonblock_m_def write_args_kwarg Let_def)
  moreover have "stream_close_write r w' = (if fin_sent s' then Inr () else rb_raise (QuicError QStreamClosed), w')"
    using h put slice by (simp add: stream_close_write_def on_stream_def quic_stream_close_write_m_def)
  moreover have "bs = [] \<Longrightarrow> quic_stream_write_m X r (write_args (VStr enc bs) fin) w' = Some (rb_raise (QuicError QStreamClosed), w')"
    using h enqueue_refused [OF h(1) f] by (simp add: quic_stream_write_m_def write_args_kwarg)
  moreover have "bs \<noteq> [] \<Longrightarrow> case quic_stream_write_m X r (write_args (VStr enc bs) fin) w' of None \<Rightarrow> True
       | Some (res, v) \<Rightarrow> (\<exists>e. res = Inl e) \<and>
           (\<exists>u dropped. heap v r = Some u \<and> pending_chunks s' = dropped @ pending_chunks u \<and> fin_sent u = fin_sent s')"
    using finished_write_m [OF wf h f, of bs X enc fin] by (auto simp: pumped_def split: option.splits)
  ultimately show ?thesis using h(1) by auto
qed

theorem finished_stream_rejects_writes_witness:
  "\<exists>w. (client_step sample_ext2)\<^sup>*\<^sup>* sample_client w \<and>
     stream_write_nonblock sample_ext2 0 (write_args (VStr ASCII_8BIT [1]) False) w = (rb_raise (QuicError QWaitWritable), w) \<and>
     quic_stream_write_m sample_ext2 0 (write_args (VStr ASCII_8BIT []) False) w = Some (rb_raise (QuicError QStreamClosed), w)"
proof -
  let ?w = "snd (stream_close_write 0 sample_client2)"
  have r: "(client_step sample_ext2)\<^sup>*\<^sup>* sample_client ?w"
    using sample_step client_step.st_close_write [of sample_ext2 sample_client2 0]
    by (meson r_into_rtranclp rtranclp.rtrancl_into_rtrancl)
  have h: "heap ?w 0 = Some (sample_stream\<lparr>fin_sent := True\<rparr>)"
    by (simp add: stream_close_write_def on_stream_def sample_client2_def sample_stream_def
        quic_stream_close_write_m_def enqueue_VStr put_stream_def)
  have z: "quic_stream_window_left sample_ext2 x s = 0" for x s
    by (simp add: quic_stream_window_left_def sample_ext2_def sample_ext_def)
  show ?thesis
    using finished_stream_rejects_writes [OF sample_client_init r rtranclp.rtrancl_refl sample_ext2_writev h, of ASCII_8BIT "[1]" False]
      finished_stream_rejects_writes [OF sample_client_init r rtranclp.rtrancl_refl sample_ext2_writev h, of ASCII_8BIT "[]" False] r
    by (auto simp: z)
qed

end
