(* ===== verification/Client_Refinement.thy ===== *)
theory Client_Refinement
  imports Client_Properties
begin

unbundle bit_operations_syntax

text \<open>
  The abstract specification of a client: for each stream object two first-in first-out byte
  queues, one of bytes the application wrote and ngtcp2 has not framed yet (\<open>unsent_q\<close>), one of bytes
  the transport delivered and the application has not read yet (\<open>unread_q\<close>). Everything visible at
  the two ends of a queue is an observation (\<open>obs\<close>); the queues accept a \<open>Framed\<close> or \<open>Took\<close> only
  if its bytes are at the head. The client, with its chunks, offsets, retransmission buffer,
  registry and callbacks, implements this specification: the abstraction \<open>pipes_of\<close> turns every
  method into the queue operations it reports.
\<close>

section \<open>Traces and functional refinement\<close>

fun arun :: "('o \<Rightarrow> 'a \<Rightarrow> 'a option) \<Rightarrow> 'o list \<Rightarrow> 'a \<Rightarrow> 'a option" where
  "arun f [] a = Some a"
| "arun f (ob # obs) a = (case f ob a of None \<Rightarrow> None | Some a' \<Rightarrow> arun f obs a')"

lemma arun_append: "arun f (xs @ ys) a = (case arun f xs a of None \<Rightarrow> None | Some a' \<Rightarrow> arun f ys a')"
  by (induction f xs a rule: arun.induct) (auto split: option.splits)

inductive traces :: "('c \<Rightarrow> 'o list \<Rightarrow> 'c \<Rightarrow> bool) \<Rightarrow> 'c \<Rightarrow> 'o list \<Rightarrow> 'c \<Rightarrow> bool" for step where
  start: "traces step w [] w"
| extend: "traces step w obs w1 \<Longrightarrow> step w1 obs' w' \<Longrightarrow> traces step w (obs @ obs') w'"

text \<open>
  A concrete system whose every step is the run of an abstract machine over the reported
  observations.
\<close>

locale functional_refinement =
  fixes cinit :: "'c \<Rightarrow> bool" and cstep :: "'c \<Rightarrow> 'o list \<Rightarrow> 'c \<Rightarrow> bool" and cinv :: "'c \<Rightarrow> bool"
    and astart :: 'a and astep :: "'o \<Rightarrow> 'a \<Rightarrow> 'a option" and absf :: "'c \<Rightarrow> 'a"
  assumes cinv_init: "cinit w \<Longrightarrow> cinv w"
    and cinv_step: "cstep w obs w' \<Longrightarrow> cinv w \<Longrightarrow> cinv w'"
    and abs_init: "cinit w \<Longrightarrow> absf w = astart"
    and abs_step: "cstep w obs w' \<Longrightarrow> cinv w \<Longrightarrow> arun astep obs (absf w) = Some (absf w')"
begin

lemma trace_inv: "traces cstep w obs w' \<Longrightarrow> cinv w \<Longrightarrow> cinv w'"
  by (induction rule: traces.induct) (auto intro: cinv_step)

lemma trace_abs: "traces cstep w obs w' \<Longrightarrow> cinv w \<Longrightarrow> arun astep obs (absf w) = Some (absf w')"
  by (induction rule: traces.induct) (auto simp: arun_append abs_step dest: trace_inv)

lemma trace_refines: "cinit w \<Longrightarrow> traces cstep w obs w' \<Longrightarrow> arun astep obs astart = Some (absf w')"
  using trace_abs cinv_init abs_init by metis

end

section \<open>The abstract machine\<close>

datatype obs = Wrote nat bytes | Framed nat bytes | Delivered nat bytes | Took nat bytes

record pipe =
  unsent_q :: bytes
  unread_q :: bytes

definition empty_pipe :: pipe where
  "empty_pipe = \<lparr>unsent_q = [], unread_q = []\<rparr>"

definition take_head :: "bytes \<Rightarrow> bytes \<Rightarrow> bytes option" where
  "take_head bs q = (if take (length bs) q = bs then Some (drop (length bs) q) else None)"

fun pipe_step :: "obs \<Rightarrow> (nat \<Rightarrow> pipe) \<Rightarrow> (nat \<Rightarrow> pipe) option" where
  "pipe_step (Wrote r bs) P = Some (P(r := (P r)\<lparr>unsent_q := unsent_q (P r) @ bs\<rparr>))"
| "pipe_step (Framed r bs) P =
     map_option (\<lambda>q. P(r := (P r)\<lparr>unsent_q := q\<rparr>)) (take_head bs (unsent_q (P r)))"
| "pipe_step (Delivered r bs) P = Some (P(r := (P r)\<lparr>unread_q := unread_q (P r) @ bs\<rparr>))"
| "pipe_step (Took r bs) P =
     map_option (\<lambda>q. P(r := (P r)\<lparr>unread_q := q\<rparr>)) (take_head bs (unread_q (P r)))"

text \<open>What a trace says about one object, at each of the four ends.\<close>

fun wrote :: "nat \<Rightarrow> obs list \<Rightarrow> bytes" where
  "wrote r [] = []"
| "wrote r (Wrote q bs # obs) = (if q = r then bs @ wrote r obs else wrote r obs)"
| "wrote r (ob # obs) = wrote r obs"

fun framed :: "nat \<Rightarrow> obs list \<Rightarrow> bytes" where
  "framed r [] = []"
| "framed r (Framed q bs # obs) = (if q = r then bs @ framed r obs else framed r obs)"
| "framed r (ob # obs) = framed r obs"

fun delivered :: "nat \<Rightarrow> obs list \<Rightarrow> bytes" where
  "delivered r [] = []"
| "delivered r (Delivered q bs # obs) = (if q = r then bs @ delivered r obs else delivered r obs)"
| "delivered r (ob # obs) = delivered r obs"

fun took :: "nat \<Rightarrow> obs list \<Rightarrow> bytes" where
  "took r [] = []"
| "took r (Took q bs # obs) = (if q = r then bs @ took r obs else took r obs)"
| "took r (ob # obs) = took r obs"

lemma take_head_Some: "take_head bs q = Some q' \<longleftrightarrow> q = bs @ q'"
  by (auto simp: take_head_def) (metis append_take_drop_id)

lemma take_head_append [simp]: "take_head bs (bs @ q) = Some q"
  by (simp add: take_head_Some)

text \<open>The abstract queues neither lose nor reorder bytes.\<close>

lemma arun_pipe_bytes:
  "arun pipe_step obs P = Some P' \<Longrightarrow>
   unsent_q (P r) @ wrote r obs = framed r obs @ unsent_q (P' r) \<and>
   unread_q (P r) @ delivered r obs = took r obs @ unread_q (P' r)"
proof (induction obs arbitrary: P)
  case (Cons ob obs)
  then obtain P1 where P1: "pipe_step ob P = Some P1" "arun pipe_step obs P1 = Some P'"
    by (auto split: option.splits)
  from Cons.IH [OF P1(2)] P1(1) show ?case
    by (cases ob) (auto simp: take_head_Some split: if_splits)
qed simp

section \<open>The abstraction\<close>

definition pipe_of :: "stream option \<Rightarrow> pipe" where
  "pipe_of so = (case so of None \<Rightarrow> empty_pipe | Some s \<Rightarrow> \<lparr>unsent_q = unsent s, unread_q = recv_buffer s\<rparr>)"

definition pipes_of :: "'x client \<Rightarrow> nat \<Rightarrow> pipe" where
  "pipes_of w r = pipe_of (heap w r)"

lemma pipes_heap: "heap w' = heap w \<Longrightarrow> pipes_of w' = pipes_of w"
  by (rule ext) (simp add: pipes_of_def)

lemma pipes_ext: "pipes_of (w\<lparr>ext_st := x\<rparr>) = pipes_of w"
  by (rule pipes_heap) simp

lemma pipes_put: "pipes_of (put_stream r s w) = (pipes_of w)(r := \<lparr>unsent_q = unsent s, unread_q = recv_buffer s\<rparr>)"
  by (rule ext) (simp add: pipes_of_def put_stream_def pipe_of_def)

lemma pipes_at: "heap w r = Some s \<Longrightarrow> pipes_of w r = \<lparr>unsent_q = unsent s, unread_q = recv_buffer s\<rparr>"
  by (simp add: pipes_of_def pipe_of_def)

text \<open>Replacing an object by one with the same two queues is not visible.\<close>

lemma pipes_put_same:
  "heap w r = Some s \<Longrightarrow> unsent s' = unsent s \<Longrightarrow> recv_buffer s' = recv_buffer s \<Longrightarrow> pipes_of (put_stream r s' w) = pipes_of w"
  by (rule ext) (simp add: pipes_put pipes_at)

lemma pipes_register: "client_wf w \<Longrightarrow> pipes_of (snd (register_stream sid w)) = pipes_of w"
  using client_wf_fresh [of w]
  by (intro ext) (simp add: pipes_of_def pipe_of_def register_stream_def empty_pipe_def Let_def)

lemma unsent_acked:
  assumes "stream_wf s" "unat (acked_offset s) + unat d \<le> unat (sent_offset s)"
  shows "unsent (stream_acked d s) = unsent s"
proof (rule stream_acked_spec [OF assms])
  fix dropped
  assume pc: "pending_chunks s = dropped @ pending_chunks (stream_acked d s)"
    and sh: "unat (pending_shifted (stream_acked d s)) = unat (pending_shifted s) + nbytes dropped"
    and "unat (acked_offset (stream_acked d s)) = unat (acked_offset s) + unat d"
    and "unat (pending_shifted (stream_acked d s)) \<le> unat (acked_offset (stream_acked d s))"
  then have "send_pos s = nbytes dropped + send_pos (stream_acked d s)" using assms(2) by simp
  moreover have "retained s = concat dropped @ retained (stream_acked d s)" using pc by (metis concat_append)
  ultimately show ?thesis by (simp add: nbytes_concat)
qed

section \<open>Callbacks\<close>

fun event_obs :: "'x client \<Rightarrow> ngtcp2_event \<Rightarrow> obs list" where
  "event_obs w (Recv_stream_data flags sid off data) =
     (case quic_client_lookup_stream w sid of None \<Rightarrow> [] | Some r \<Rightarrow> [Delivered r data])"
| "event_obs w e = []"

fun events_obs :: "ngtcp2_consts \<Rightarrow> 'x client \<Rightarrow> ngtcp2_event list \<Rightarrow> obs list" where
  "events_obs K w [] = []"
| "events_obs K w (e # es) = event_obs w e @ events_obs K (run_event K e w) es"

lemma abs_event:
  assumes wf: "client_wf w" and ok: "event_ok w e"
  shows "arun pipe_step (event_obs w e) (pipes_of w) = Some (pipes_of (run_event K e w))"
proof (cases e)
  case (Stream_open sid)
  then show ?thesis using pipes_register [OF wf] by (simp add: quic_stream_open_cb_def)
next
  case (Recv_stream_data flags sid off data)
  show ?thesis
  proof (cases "quic_client_lookup_stream w sid")
    case (Some r)
    then obtain s where s: "heap w r = Some s" using lookup_live [OF wf] by blast
    let ?w = "w\<lparr>accept_queue := ary_push (accept_queue w) r\<rparr>"
    have p: "pipes_of ?w = pipes_of w" by (rule pipes_heap) simp
    show ?thesis
      using Some s by (auto simp: Recv_stream_data quic_recv_stream_data_cb_def pipes_put p pipes_at [OF s])
  qed (simp add: Recv_stream_data quic_recv_stream_data_cb_def)
next
  case (Acked_stream_data_offset sid off d)
  show ?thesis
  proof (cases "quic_client_lookup_stream w sid")
    case (Some r)
    then obtain s where s: "heap w r = Some s" "obj_wf w r s" using lookup_live [OF wf] by blast
    then have u: "unsent (stream_acked d s) = unsent s"
      using ok Some Acked_stream_data_offset by (intro unsent_acked) (simp_all add: obj_wf_def)
    have "pipes_of (put_stream r (stream_acked d s) w) = pipes_of w"
      by (rule pipes_put_same [OF s(1) u]) simp
    with Some s show ?thesis by (simp add: Acked_stream_data_offset quic_acked_stream_data_offset_cb_def)
  qed (simp add: Acked_stream_data_offset quic_acked_stream_data_offset_cb_def)
next
  case (Stream_close flags sid code)
  have "pipes_of (w\<lparr>streams := h\<rparr>) = pipes_of w" for w :: "'a client" and h by (rule pipes_heap) simp
  then show ?thesis
    by (auto simp: Stream_close quic_stream_close_cb_def split: option.splits intro!: pipes_put_same [symmetric])
next
  case (Stream_reset sid sz code)
  then show ?thesis
    by (auto simp: quic_stream_reset_cb_def split: option.splits intro!: pipes_put_same [symmetric])
qed

lemma abs_events:
  "client_wf w \<Longrightarrow> events_ok K w es \<Longrightarrow>
   arun pipe_step (events_obs K w es) (pipes_of w) = Some (pipes_of (run_events K es w))"
proof (induction K es w rule: run_events.induct)
  case (2 K e es w)
  then show ?case using abs_event [of w e K] by (simp add: arun_append client_wf_run_event)
qed simp

section \<open>What each method reports\<close>

definition framed_obs :: "send_pick option \<Rightarrow> int \<Rightarrow> obs list" where
  "framed_obs sel pdatalen =
     (case sel of None \<Rightarrow> []
      | Some p \<Rightarrow> (case pk_datav p of None \<Rightarrow> [] | Some v \<Rightarrow> [Framed (pk_ref p) (take (nat pdatalen) v)]))"

definition write_pkt_obs :: "'x ext \<Rightarrow> call_args \<Rightarrow> 'x client \<Rightarrow> obs list" where
  "write_pkt_obs X args w =
     (let K = consts_of X in
      case bindE (rb_scan_args 0 1 False args) (\<lambda>(pos, opts). prepare_buffer K (pos ! 0)) of
        Inl e \<Rightarrow> []
      | Inr b \<Rightarrow> (case writev_call X w of (ret, x') \<Rightarrow>
          events_obs K (w\<lparr>ext_st := x'\<rparr>) (wv_events ret) @
          (if wv_n ret < 0 then [] else framed_obs (quic_client_pick_send_stream K w) (wv_pdatalen ret))))"

definition read_pkt_obs :: "'x ext \<Rightarrow> call_args \<Rightarrow> bool \<Rightarrow> 'x client \<Rightarrow> obs list" where
  "read_pkt_obs X args lk w =
     (case read_pkt_args args of Inl e \<Rightarrow> []
      | Inr (packet, pth) \<Rightarrow>
          if lk then []
          else (case quic_now X (ext_st w) of (ts, x1) \<Rightarrow>
            (case x_read_pkt X pth packet ts x1 of ((rv, evs), x2) \<Rightarrow>
              events_obs (consts_of X) (w\<lparr>ext_st := x2\<rparr>) evs)))"

definition handle_expiry_obs :: "'x ext \<Rightarrow> 'x client \<Rightarrow> obs list" where
  "handle_expiry_obs X w =
     (case quic_now X (ext_st w) of (ts, x1) \<Rightarrow>
        (case x_handle_expiry X ts x1 of ((rv, evs), x2) \<Rightarrow>
          events_obs (consts_of X) (w\<lparr>ext_st := x2\<rparr>) evs))"

definition wrote_obs :: "nat \<Rightarrow> bytes \<Rightarrow> exn + int \<Rightarrow> obs list" where
  "wrote_obs r bs res = (case res of Inl e \<Rightarrow> [] | Inr n \<Rightarrow> [Wrote r (take (nat n) bs)])"

definition took_obs :: "nat \<Rightarrow> exn + bytes \<Rightarrow> obs list" where
  "took_obs r res = (case res of Inl e \<Rightarrow> [] | Inr out \<Rightarrow> [Took r out])"

definition data_bytes :: "call_args \<Rightarrow> bytes" where
  "data_bytes args = (case quic_stream_fin_kwarg args of Inr (VStr enc bs, fin) \<Rightarrow> bs | _ \<Rightarrow> [])"

definition close_read_obs :: "'x ext \<Rightarrow> nat \<Rightarrow> 'x client \<Rightarrow> obs list" where
  "close_read_obs X r w =
     (case heap w r of None \<Rightarrow> []
      | Some s \<Rightarrow> if \<not> has_client s then []
          else (case x_shutdown_stream_read X (stream_id s) 0 (ext_st w) of ((rv, evs), x') \<Rightarrow>
            events_obs (consts_of X) (w\<lparr>ext_st := x'\<rparr>) evs))"

definition reset_obs :: "'x ext \<Rightarrow> nat \<Rightarrow> call_args \<Rightarrow> 'x client \<Rightarrow> obs list" where
  "reset_obs X r args w =
     (case reset_args args of Inl e \<Rightarrow> []
      | Inr code \<Rightarrow> (case heap w r of None \<Rightarrow> []
        | Some s \<Rightarrow> if reset s \<or> \<not> has_client s then []
            else (case x_shutdown_stream_write X (stream_id s) code (ext_st w) of ((rv, evs), x') \<Rightarrow>
              events_obs (consts_of X) (w\<lparr>ext_st := x'\<rparr>) evs)))"

definition close_obs :: "'x ext \<Rightarrow> call_args \<Rightarrow> 'x client \<Rightarrow> obs list" where
  "close_obs X args w =
     (case close_args args of Inl e \<Rightarrow> []
      | Inr (code, reason) \<Rightarrow>
          if x_in_closing_period X (ext_st w) \<or> x_in_draining_period X (ext_st w) \<or> sock w = None then []
          else (case quic_now X (ext_st w) of (ts, x1) \<Rightarrow>
            (case x_write_connection_close X code (if length reason > 0 then Some reason else None)
                (QUIC_WRITE_PKT_BUFLEN (consts_of X)) ts x1 of ((n, pkt, evs), x2) \<Rightarrow>
              events_obs (consts_of X) (w\<lparr>ext_st := x2\<rparr>) evs)))"

text \<open>
  The steps of \<open>client_step\<close> with what they report. The premises are those of \<open>client_step\<close>.
\<close>

inductive client_trans :: "'x ext \<Rightarrow> 'x client \<Rightarrow> obs list \<Rightarrow> 'x client \<Rightarrow> bool" for X where
  tr_write_pkt: "writev_call X w = (ret, x') \<Longrightarrow>
    events_ok (consts_of X) (w\<lparr>ext_st := x'\<rparr>) (wv_events ret) \<Longrightarrow>
    client_trans X w (write_pkt_obs X args w) (snd (snd (quic_client_write_pkt X args w)))"
| tr_read_pkt: "(\<And>packet pth ts x1 rv evs x2. read_pkt_args args = Inr (packet, pth) \<Longrightarrow>
      quic_now X (ext_st w) = (ts, x1) \<Longrightarrow> x_read_pkt X pth packet ts x1 = ((rv, evs), x2) \<Longrightarrow>
      events_ok (consts_of X) (w\<lparr>ext_st := x2\<rparr>) evs) \<Longrightarrow>
    client_trans X w (read_pkt_obs X args lk w) (snd (snd (quic_client_read_pkt X args (lk, w))))"
| tr_handle_expiry: "quic_now X (ext_st w) = (ts, x1) \<Longrightarrow> x_handle_expiry X ts x1 = ((rv, evs), x2) \<Longrightarrow>
    events_ok (consts_of X) (w\<lparr>ext_st := x2\<rparr>) evs \<Longrightarrow>
    client_trans X w (handle_expiry_obs X w) (snd (quic_client_handle_expiry X w))"
| tr_open_bidi: "client_trans X w [] (snd (quic_client_open_bidi_stream X w))"
| tr_open_uni: "client_trans X w [] (snd (quic_client_open_uni_stream X w))"
| tr_accept: "client_trans X w [] (snd (accept_stream_nonblock w))"
| tr_bind: "client_trans X w [] (bind_sock so w)"
| tr_enqueue: "write_room r (length bs) w \<Longrightarrow>
    client_trans X w (wrote_obs r bs (fst (stream_enqueue r (VStr enc bs) fin w)))
      (snd (stream_enqueue r (VStr enc bs) fin w))"
| tr_write_nonblock: "write_room r (data_len args) w \<Longrightarrow>
    client_trans X w (wrote_obs r (data_bytes args) (fst (stream_write_nonblock X r args w)))
      (snd (stream_write_nonblock X r args w))"
| tr_close_write: "client_trans X w [] (snd (stream_close_write r w))"
| tr_read_nonblock: "client_trans X w (took_obs r (fst (stream_read_nonblock r v w)))
    (snd (stream_read_nonblock r v w))"
| tr_close_read: "(\<And>s rv evs x2. heap w r = Some s \<Longrightarrow>
      x_shutdown_stream_read X (stream_id s) 0 (ext_st w) = ((rv, evs), x2) \<Longrightarrow>
      events_ok (consts_of X) (w\<lparr>ext_st := x2\<rparr>) evs) \<Longrightarrow>
    client_trans X w (close_read_obs X r w) (snd (quic_stream_close_read_m X r w))"
| tr_reset: "(\<And>s code rv evs x2. heap w r = Some s \<Longrightarrow>
      x_shutdown_stream_write X (stream_id s) code (ext_st w) = ((rv, evs), x2) \<Longrightarrow>
      events_ok (consts_of X) (w\<lparr>ext_st := x2\<rparr>) evs) \<Longrightarrow>
    client_trans X w (reset_obs X r args w) (snd (quic_stream_reset_m X r args w))"
| tr_close: "(\<And>code reason ts x1 n pkt evs x2. quic_now X (ext_st w) = (ts, x1) \<Longrightarrow>
      x_write_connection_close X code reason (QUIC_WRITE_PKT_BUFLEN (consts_of X)) ts x1 = ((n, pkt, evs), x2) \<Longrightarrow>
      events_ok (consts_of X) (w\<lparr>ext_st := x2\<rparr>) evs) \<Longrightarrow>
    client_trans X w (close_obs X args w) (snd (quic_client_close_m X args w))"

text \<open>Reporting neither adds nor removes steps.\<close>

lemma client_trans_step: "client_trans X w obs w' \<Longrightarrow> client_step X w w'"
  by (induction rule: client_trans.induct) (rule client_step.intros; assumption)+

lemma client_step_trans: "client_step X w w' \<Longrightarrow> \<exists>obs. client_trans X w obs w'"
  by (induction rule: client_step.induct) (rule exI, rule client_trans.intros; assumption)+

section \<open>Every method is the run it reports\<close>

definition reports :: "'x client \<Rightarrow> obs list \<Rightarrow> 'x client \<Rightarrow> bool" where
  "reports w obs w' \<longleftrightarrow> arun pipe_step obs (pipes_of w) = Some (pipes_of w')"

lemma reports_refl: "reports w [] w"
  by (simp add: reports_def)

lemma reports_trans: "reports u a v \<Longrightarrow> reports v b w \<Longrightarrow> reports u (a @ b) w"
  by (simp add: reports_def arun_append)

lemma reports_heap: "heap w' = heap w \<Longrightarrow> reports w [] w'"
  using pipes_heap [of w' w] by (simp add: reports_def)

lemma reports_ext: "reports (w\<lparr>ext_st := x\<rparr>) obs w' = reports w obs w'" "reports w obs (w'\<lparr>ext_st := x\<rparr>) = reports w obs w'"
  by (simp_all add: reports_def pipes_ext)

lemma reports_events:
  "client_wf w \<Longrightarrow> events_ok K (w\<lparr>ext_st := x\<rparr>) es \<Longrightarrow>
   reports w (events_obs K (w\<lparr>ext_st := x\<rparr>) es) (run_events K es (w\<lparr>ext_st := x\<rparr>))"
  using abs_events [of "w\<lparr>ext_st := x\<rparr>" K es] by (simp add: reports_def pipes_ext)

lemma reports_silent_put:
  "heap w r = Some s \<Longrightarrow> unsent s' = unsent s \<Longrightarrow> recv_buffer s' = recv_buffer s \<Longrightarrow> reports w [] (put_stream r s' w)"
  by (simp add: reports_def pipes_put_same)

lemma reports_wrote:
  "heap w r = Some s \<Longrightarrow> unsent s' = unsent s @ bs \<Longrightarrow> recv_buffer s' = recv_buffer s \<Longrightarrow>
   reports w [Wrote r bs] (put_stream r s' w)"
  by (simp add: reports_def pipes_put pipes_at)

lemma reports_took:
  "heap w r = Some s \<Longrightarrow> unsent s' = unsent s \<Longrightarrow> recv_buffer s = out @ recv_buffer s' \<Longrightarrow>
   reports w [Took r out] (put_stream r s' w)"
  by (simp add: reports_def pipes_put pipes_at take_head_Some)

lemma reports_framed:
  "heap w r = Some s \<Longrightarrow> unsent s = bs @ unsent s' \<Longrightarrow> recv_buffer s' = recv_buffer s \<Longrightarrow>
   reports w [Framed r bs] (put_stream r s' w)"
  by (simp add: reports_def pipes_put pipes_at take_head_Some)

subsection \<open>Stream methods\<close>

lemma enqueue_unsent:
  assumes "stream_wf s" "quic_stream_enqueue (VStr enc bs) fin s = Inr (n, s')"
  shows "n = int (length bs) \<and> unsent s' = unsent s @ bs \<and> recv_buffer s' = recv_buffer s"
  using assms by (auto simp: enqueue_Inr_iff stream_wf_def)

text \<open>A failed method of a stream reports nothing; a successful one replaces the object.\<close>

lemma reports_on_stream:
  assumes "client_wf w" "\<And>e. g (Inl e) = []"
    and "\<And>s a s'. heap w r = Some s \<Longrightarrow> stream_wf s \<Longrightarrow> f s = Inr (a, s') \<Longrightarrow> reports w (g (Inr a)) (put_stream r s' w)"
  shows "reports w (g (fst (on_stream r f w))) (snd (on_stream r f w))"
  using assms client_wf_obj [OF assms(1)]
  by (auto simp: on_stream_def obj_wf_def reports_refl split: option.splits sum.splits)

lemma reports_enqueue:
  assumes wf: "client_wf w"
  shows "reports w (wrote_obs r bs (fst (stream_enqueue r (VStr enc bs) fin w))) (snd (stream_enqueue r (VStr enc bs) fin w))"
  unfolding stream_enqueue_def
proof (rule reports_on_stream [OF wf])
  fix s n s'
  assume "heap w r = Some s" "stream_wf s" "quic_stream_enqueue (VStr enc bs) fin s = Inr (n, s')"
  with enqueue_unsent show "reports w (wrote_obs r bs (Inr n)) (put_stream r s' w)"
    by (fastforce simp: wrote_obs_def intro: reports_wrote)
qed (simp add: wrote_obs_def)

text \<open>A write that does not wait queues a prefix of its data, of the length it returns.\<close>

lemma write_nonblock_prefix:
  assumes "quic_stream_write_nonblock_m X x args s = Inr (n, s')"
  shows "\<exists>enc fin. quic_stream_enqueue (VStr enc (take (nat n) (data_bytes args))) fin s = Inr (n, s')"
proof -
  obtain data fin where k: "quic_stream_fin_kwarg args = Inr (data, fin)"
    using assms by (auto simp: quic_stream_write_nonblock_m_def res_iff)
  obtain enc bs where d: "data = VStr enc bs"
    using assms k by (cases data) (auto simp: quic_stream_write_nonblock_m_def enqueue_Inr_iff split: if_splits)
  obtain enc' k' fin' where e: "quic_stream_enqueue (VStr enc' (take k' bs)) fin' s = Inr (n, s')"
    using assms k d
    by (auto simp: quic_stream_write_nonblock_m_def Let_def split: if_splits) (metis take_all order_refl)+
  then have "take (nat n) bs = take k' bs" by (auto simp: enqueue_Inr_iff min_def)
  with e show ?thesis by (auto simp: data_bytes_def k d)
qed

lemma reports_write_nonblock:
  assumes wf: "client_wf w"
  shows "reports w (wrote_obs r (data_bytes args) (fst (stream_write_nonblock X r args w)))
    (snd (stream_write_nonblock X r args w))"
  unfolding stream_write_nonblock_def
proof (rule reports_on_stream [OF wf])
  fix s n s'
  assume s: "heap w r = Some s" "stream_wf s" "quic_stream_write_nonblock_m X (ext_st w) args s = Inr (n, s')"
  from write_nonblock_prefix [OF s(3)] enqueue_unsent [OF s(2)] s(1)
  show "reports w (wrote_obs r (data_bytes args) (Inr n)) (put_stream r s' w)"
    by (fastforce simp: wrote_obs_def intro: reports_wrote)
qed (simp add: wrote_obs_def)

lemma reports_close_write:
  assumes wf: "client_wf w"
  shows "reports w [] (snd (stream_close_write r w))"
  unfolding stream_close_write_def
proof (rule reports_on_stream [OF wf, where g = "\<lambda>_. []"])
  fix s a s'
  assume s: "heap w r = Some s" "stream_wf s" "bindE (quic_stream_close_write_m s) (\<lambda>s'. Inr ((), s')) = Inr (a, s')"
  then have "unsent s' = unsent s \<and> recv_buffer s' = recv_buffer s"
    using enqueue_unsent [OF s(2), of ASCII_8BIT "[]" True]
    by (auto simp: quic_stream_close_write_m_def res_iff split: if_splits)
  with s(1) show "reports w [] (put_stream r s' w)" by (intro reports_silent_put) simp_all
qed simp

lemma reports_read_nonblock:
  assumes wf: "client_wf w"
  shows "reports w (took_obs r (fst (stream_read_nonblock r v w))) (snd (stream_read_nonblock r v w))"
  unfolding stream_read_nonblock_def
proof (rule reports_on_stream [OF wf])
  fix s out s'
  assume s: "heap w r = Some s" "quic_stream_read_nonblock_m v s = Inr (out, s')"
  from read_nonblock_take_drop [OF s(2)] read_nonblock_state [OF s(2)] s(1)
  show "reports w (took_obs r (Inr out)) (put_stream r s' w)"
    by (auto simp: took_obs_def intro: reports_took)
qed (simp add: took_obs_def)

subsection \<open>Packets\<close>

lemma unsent_nonempty_prefix:
  "stream_wf s \<Longrightarrow> unat (sent_offset s') = unat (sent_offset s) + k \<Longrightarrow> pending_shifted s' = pending_shifted s \<Longrightarrow>
   pending_chunks s' = pending_chunks s \<Longrightarrow> unsent s' = drop k (unsent s)"
  by (simp add: stream_wf_def add.commute)

text \<open>Accounting moves exactly the bytes ngtcp2 reports as framed out of the queue.\<close>

lemma account_unsent:
  assumes wf: "stream_wf s" and pick: "stream_pick K s = Some (dv, fl)"
    and pd: "pd \<le> (case dv of None \<Rightarrow> 0 | Some d \<Rightarrow> int (length d))"
  shows "unsent s = (case dv of None \<Rightarrow> [] | Some v \<Rightarrow> take (nat pd) v) @ unsent (stream_account K fl dv n pd s)"
proof -
  have d: "unsent (stream_account K fl dv n pd s) = drop (nat pd) (unsent s)"
    using unsent_nonempty_prefix [OF wf account_sent_unat [OF wf pick pd]] by simp
  show ?thesis
  proof (cases dv)
    case None
    with pd d show ?thesis by simp
  next
    case (Some v)
    with stream_pick_data [OF wf] pick obtain rest where "unsent s = v @ rest" by blast
    with Some pd show ?thesis unfolding d by simp
  qed
qed

lemma reports_account:
  assumes wf: "client_wf w" and ok: "events_ok K (w\<lparr>ext_st := x\<rparr>) es"
    and sel: "quic_client_pick_send_stream K w = Some p"
    and pd: "pd \<le> (case pk_datav p of None \<Rightarrow> 0 | Some d \<Rightarrow> int (length d))"
  shows "reports (run_events K es (w\<lparr>ext_st := x\<rparr>)) (framed_obs (Some p) pd)
    (account_selected K (Some p) n pd (run_events K es (w\<lparr>ext_st := x\<rparr>)))"
proof -
  let ?w = "run_events K es (w\<lparr>ext_st := x\<rparr>)"
  obtain s where s: "heap w (pk_ref p) = Some s" "stream_pick K s = Some (pk_datav p, pk_flags p)"
    using pick_loop_Some sel unfolding quic_client_pick_send_stream_def by blast
  then obtain s1 where s1: "heap ?w (pk_ref p) = Some s1" "stream_pick K s1 = Some (pk_datav p, pk_flags p)"
    using same_offer_run_events [of "w\<lparr>ext_st := x\<rparr>" K es "pk_ref p" s] wf ok by (auto simp: same_offer_def)
  have "client_wf ?w" using client_wf_run_events [of "w\<lparr>ext_st := x\<rparr>"] wf ok by simp
  then have "stream_wf s1" using s1(1) client_wf_obj by (fastforce simp: obj_wf_def)
  from account_unsent [OF this s1(2) pd, of n] s1(1) show ?thesis
    by (cases "pk_datav p")
      (auto simp: account_selected_def framed_obs_def intro: reports_framed reports_silent_put)
qed

lemma reports_write_pkt:
  assumes wf: "client_wf w" and X: "writev_contract X" and call: "writev_call X w = (ret, x')"
    and ok: "events_ok (consts_of X) (w\<lparr>ext_st := x'\<rparr>) (wv_events ret)"
  shows "reports w (write_pkt_obs X args w) (snd (snd (quic_client_write_pkt X args w)))"
proof -
  let ?K = "consts_of X"
  let ?w = "run_events ?K (wv_events ret) (w\<lparr>ext_st := x'\<rparr>)" and ?sel = "quic_client_pick_send_stream ?K w"
  have ev: "reports w (events_obs ?K (w\<lparr>ext_st := x'\<rparr>) (wv_events ret)) ?w"
    using wf ok by (rule reports_events)
  have "reports ?w (framed_obs ?sel (wv_pdatalen ret)) (account_selected ?K ?sel (wv_n ret) (wv_pdatalen ret) ?w)"
  proof (cases ?sel)
    case (Some p)
    have "wv_pdatalen ret \<le> (case pk_datav p of None \<Rightarrow> 0 | Some d \<Rightarrow> int (length d))"
      using call Some
      by (auto simp: writev_call_def Let_def split: prod.splits dest: writev_contractD(1) [OF X])
    with Some show ?thesis using reports_account [OF wf ok] by simp
  qed (simp add: account_selected_def framed_obs_def reports_refl)
  with ev have "reports w (events_obs ?K (w\<lparr>ext_st := x'\<rparr>) (wv_events ret) @ framed_obs ?sel (wv_pdatalen ret))
      (account_selected ?K ?sel (wv_n ret) (wv_pdatalen ret) ?w)"
    by (rule reports_trans)
  with ev call show ?thesis
    by (auto simp: quic_client_write_pkt_def write_pkt_obs_def Let_def reports_refl split: sum.splits)
qed

lemma reports_read_pkt:
  assumes wf: "client_wf w"
    and ok: "\<And>packet pth ts x1 rv evs x2. read_pkt_args args = Inr (packet, pth) \<Longrightarrow>
      quic_now X (ext_st w) = (ts, x1) \<Longrightarrow> x_read_pkt X pth packet ts x1 = ((rv, evs), x2) \<Longrightarrow>
      events_ok (consts_of X) (w\<lparr>ext_st := x2\<rparr>) evs"
  shows "reports w (read_pkt_obs X args lk w) (snd (snd (quic_client_read_pkt X args (lk, w))))"
  using reports_events [OF wf ok]
  by (auto simp: quic_client_read_pkt_def read_pkt_obs_def rb_ensure_def quic_read_pkt_body_def
      quic_read_pkt_unlock_def reports_refl split: sum.splits prod.splits)

lemma reports_handle_expiry:
  assumes wf: "client_wf w" and c: "quic_now X (ext_st w) = (ts, x1)" "x_handle_expiry X ts x1 = ((rv, evs), x2)"
    and ok: "events_ok (consts_of X) (w\<lparr>ext_st := x2\<rparr>) evs"
  shows "reports w (handle_expiry_obs X w) (snd (quic_client_handle_expiry X w))"
  using reports_events [OF wf ok] by (simp add: quic_client_handle_expiry_def handle_expiry_obs_def c)

subsection \<open>Opening, accepting and closing\<close>

lemma reports_register: "client_wf w \<Longrightarrow> reports w [] (snd (register_stream sid w))"
  using pipes_register [of w sid] by (simp add: reports_def)

lemma reports_open_stream:
  assumes "client_wf w"
  shows "reports w [] (snd (open_stream X call w))"
proof -
  have "reports w [] (snd (register_stream sid (w\<lparr>ext_st := x\<rparr>)))" for sid x
    using reports_register [of "w\<lparr>ext_st := x\<rparr>" sid] assms by (simp add: reports_ext)
  with assms show ?thesis
    by (auto simp: open_stream_def Let_def reports_ext reports_refl split: prod.splits) (metis snd_conv)
qed

lemma reports_accept: "reports w [] (snd (accept_stream_nonblock w))"
  by (rule reports_heap) (simp add: accept_stream_nonblock_def split: prod.splits option.splits)

lemma reports_close_read:
  assumes wf: "client_wf w"
    and ok: "\<And>s rv evs x2. heap w r = Some s \<Longrightarrow>
      x_shutdown_stream_read X (stream_id s) 0 (ext_st w) = ((rv, evs), x2) \<Longrightarrow>
      events_ok (consts_of X) (w\<lparr>ext_st := x2\<rparr>) evs"
  shows "reports w (close_read_obs X r w) (snd (quic_stream_close_read_m X r w))"
  using reports_events [OF wf ok]
  by (auto simp: quic_stream_close_read_m_def close_read_obs_def reports_refl split: option.splits prod.splits)

lemma reports_reset:
  assumes wf: "client_wf w"
    and ok: "\<And>s code rv evs x2. heap w r = Some s \<Longrightarrow>
      x_shutdown_stream_write X (stream_id s) code (ext_st w) = ((rv, evs), x2) \<Longrightarrow>
      events_ok (consts_of X) (w\<lparr>ext_st := x2\<rparr>) evs"
  shows "reports w (reset_obs X r args w) (snd (quic_stream_reset_m X r args w))"
proof -
  have "reports v [] (case heap v r of None \<Rightarrow> v | Some s1 \<Rightarrow> put_stream r (s1\<lparr>reset := True\<rparr>) v)" for v :: "'a client"
    by (auto simp: reports_refl split: option.splits intro: reports_silent_put)
  from reports_trans [OF _ this] this have
    "reports w obs v \<Longrightarrow> reports w obs (case heap v r of None \<Rightarrow> v | Some s1 \<Rightarrow> put_stream r (s1\<lparr>reset := True\<rparr>) v)"
    for obs v by (metis append_Nil2)
  with reports_events [OF wf ok] show ?thesis
    by (auto simp: quic_stream_reset_m_def reset_obs_def reports_refl Let_def
        split: sum.splits option.splits prod.splits intro: reports_silent_put)
qed

lemma reports_close:
  assumes wf: "client_wf w"
    and ok: "\<And>code reason ts x1 n pkt evs x2. quic_now X (ext_st w) = (ts, x1) \<Longrightarrow>
      x_write_connection_close X code reason (QUIC_WRITE_PKT_BUFLEN (consts_of X)) ts x1 = ((n, pkt, evs), x2) \<Longrightarrow>
      events_ok (consts_of X) (w\<lparr>ext_st := x2\<rparr>) evs"
  shows "reports w (close_obs X args w) (snd (quic_client_close_m X args w))"
  using reports_events [OF wf ok]
  by (auto simp: quic_client_close_m_def close_obs_def Let_def reports_refl reports_ext
      split: sum.splits prod.splits option.splits)

lemma reports_trans_step: "client_trans X w obs w' \<Longrightarrow> writev_contract X \<Longrightarrow> client_wf w \<Longrightarrow> reports w obs w'"
  by (induction rule: client_trans.induct)
    (simp_all add: reports_write_pkt reports_read_pkt reports_handle_expiry reports_open_stream reports_accept
      quic_client_open_bidi_stream_def quic_client_open_uni_stream_def reports_heap bind_sock_def reports_enqueue
      reports_write_nonblock reports_close_write reports_read_nonblock reports_close_read reports_reset reports_close)

section \<open>The client implements the queues\<close>

text \<open>The steps of a client whose transport keeps its contract.\<close>

definition sound_trans :: "'x ext \<Rightarrow> 'x client \<Rightarrow> obs list \<Rightarrow> 'x client \<Rightarrow> bool" where
  "sound_trans X w obs w' \<longleftrightarrow> writev_contract X \<and> client_trans X w obs w'"

interpretation pipes: functional_refinement client_init "sound_trans X" client_wf "\<lambda>_. empty_pipe" pipe_step pipes_of for X
proof unfold_locales
  fix w w' :: "'a client" and obs
  show "client_wf w" if "client_init w"
    using that by (simp add: client_init_def client_wf_def registry_wf_def queue_wf_def)
  show "client_wf w'" if "sound_trans X w obs w'" "client_wf w"
    using that client_step_advances [OF client_trans_step] by (auto simp: sound_trans_def advances_def)
  show "pipes_of w = (\<lambda>_. empty_pipe)" if "client_init w"
    using that by (intro ext) (simp add: pipes_of_def pipe_of_def client_init_def)
  show "arun pipe_step obs (pipes_of w) = Some (pipes_of w')" if "sound_trans X w obs w'" "client_wf w"
    using that reports_trans_step by (auto simp: sound_trans_def reports_def)
qed

lemma traces_sound: "traces (client_trans X) w obs w' \<Longrightarrow> writev_contract X \<Longrightarrow> traces (sound_trans X) w obs w'"
  by (induction rule: traces.induct) (auto simp: sound_trans_def intro: traces.intros)

text \<open>Traces are the runs of \<open>client_step\<close>.\<close>

lemma traces_runs: "(client_step X)\<^sup>*\<^sup>* w w' \<longleftrightarrow> (\<exists>obs. traces (client_trans X) w obs w')"
proof
  show "\<exists>obs. traces (client_trans X) w obs w'" if "(client_step X)\<^sup>*\<^sup>* w w'"
    using that by (induction rule: rtranclp_induct) (blast intro: traces.intros dest: client_step_trans)+
  assume "\<exists>obs. traces (client_trans X) w obs w'"
  then obtain obs where "traces (client_trans X) w obs w'" ..
  then show "(client_step X)\<^sup>*\<^sup>* w w'"
    by (induction rule: traces.induct) (auto dest: client_trans_step)
qed

lemmas trace_pipes = pipes.trace_refines [OF _ traces_sound]

text \<open>An example: the peer sends two bytes, the application writes three and reads one.\<close>

definition framing_ext :: "unit ext" where
  "framing_ext = sample_ext2\<lparr>x_writev_stream := (\<lambda>flags sid data destlen ts x.
     (\<lparr>wv_n = (if destlen = 0 then 0 else 1), wv_pdatalen = (case data of None \<Rightarrow> -1 | Some d \<Rightarrow> min 2 (int (length d))),
        wv_packet = [0], wv_events = []\<rparr>, x))\<rparr>"

definition sample_obs :: "obs list" where
  "sample_obs = [Delivered 0 [7, 8], Wrote 0 [1, 2, 3], Framed 0 [1, 2], Took 0 [7]]"

lemma framing_ext_writev: "writev_contract framing_ext"
  by (auto simp: writev_contract_def framing_ext_def split: option.splits)

lemma framing_read_body: "quic_read_pkt_body framing_ext = quic_read_pkt_body sample_ext2"
  by (intro ext) (simp add: quic_read_pkt_body_def quic_now_def framing_ext_def sample_ext2_def)

lemma sample_trace: "\<exists>w. traces (client_trans framing_ext) sample_client sample_obs w"
proof -
  let ?X = framing_ext
  let ?w1 = sample_client2
  let ?w2 = "?w1\<lparr>heap := [0 \<mapsto> sample_stream\<lparr>pending_chunks := [[1, 2, 3]], fin_sent := False\<rparr>]\<rparr>"
  let ?w3 = "snd (snd (quic_client_write_pkt ?X \<lparr>positional = [], kwargs = None\<rparr> ?w2))"
  let ?w4 = "snd (stream_read_nonblock 0 (VInt 1) ?w3)"
  have r: "quic_client_read_pkt ?X sample_read_args (False, sample_client) = (Inr (), False, ?w1)"
    using sample_read_pkt unfolding quic_client_read_pkt_def framing_read_body .
  have "client_trans ?X sample_client (read_pkt_obs ?X sample_read_args False sample_client)
      (snd (snd (quic_client_read_pkt ?X sample_read_args (False, sample_client))))"
    by (rule client_trans.tr_read_pkt) (auto simp: framing_ext_def sample_ext2_def sample_events_def)
  then have t1: "client_trans ?X sample_client [Delivered 0 [7, 8]] ?w1"
    by (simp add: r) (simp add: read_pkt_obs_def read_pkt_args_def rb_scan_args_def sample_read_args_def kw_aref_def
        NIL_P_def quic_require_binary_def quic_now_def framing_ext_def sample_ext2_def sample_ext_def sample_events_def
        quic_stream_open_cb_def register_stream_def quic_client_lookup_stream_def sample_client_def LL2NUM_def
        sample_consts_def)
  have e: "stream_enqueue 0 (VStr ASCII_8BIT [1, 2, 3]) False ?w1 = (Inr 3, ?w2)"
    by (simp add: stream_enqueue_def on_stream_def sample_client2_def sample_stream_def enqueue_VStr put_stream_def)
  have t2: "client_trans ?X ?w1 [Wrote 0 [1, 2, 3]] ?w2"
    using client_trans.tr_enqueue [of 0 "[1, 2, 3]" ?w1 ?X ASCII_8BIT False] unfolding e
    by (simp add: write_room_def sample_client2_def sample_stream_def wrote_obs_def)
  have sel: "quic_client_pick_send_stream sample_consts ?w2 =
      Some \<lparr>pk_ref = 0, pk_datav = Some [1, 2, 3], pk_flags = 0, pk_sid = 1\<rparr>"
    by (simp add: quic_client_pick_send_stream_def sample_client2_def hash_values_def stream_pick_def sample_stream_def)
  have buf: "prepare_buffer sample_consts VNil = Inr ([], 1200)"
    by (simp add: prepare_buffer_def NIL_P_def QUIC_WRITE_PKT_BUFLEN_def sample_consts_def)
  have K: "consts_of ?X = sample_consts" by (simp add: framing_ext_def sample_ext2_def)
  have call: "writev_call ?X ?w2 = (\<lparr>wv_n = 1, wv_pdatalen = 2, wv_packet = [0], wv_events = []\<rparr>, ())"
    by (simp add: writev_call_def K sel split: prod.splits)
      (simp add: framing_ext_def QUIC_WRITE_PKT_BUFLEN_def sample_consts_def)
  have f: "write_pkt_obs ?X \<lparr>positional = [], kwargs = None\<rparr> ?w2 = [Framed 0 [1, 2]]"
    by (simp add: write_pkt_obs_def K rb_scan_args_def buf call sel framed_obs_def)
  have t3: "client_trans ?X ?w2 [Framed 0 [1, 2]] ?w3"
    using client_trans.tr_write_pkt [OF call, of "\<lparr>positional = [], kwargs = None\<rparr>"] unfolding f by simp
  have "heap ?w3 0 = Some (sample_stream\<lparr>pending_chunks := [[1, 2, 3]], fin_sent := False, sent_offset := 2\<rparr>)"
    by (simp add: quic_client_write_pkt_def K rb_scan_args_def buf call sel account_selected_def put_stream_def
        stream_account_def) (simp add: sample_stream_def Let_def)
  then have o: "took_obs 0 (fst (stream_read_nonblock 0 (VInt 1) ?w3)) = [Took 0 [7]]"
    by (simp add: stream_read_nonblock_def on_stream_def took_obs_def quic_stream_read_nonblock_m_def
        memmove_front_def sample_stream_def)
  have t4: "client_trans ?X ?w3 [Took 0 [7]] ?w4"
    using client_trans.tr_read_nonblock [of ?X ?w3 0 "VInt 1"] unfolding o .
  have "traces (client_trans ?X) sample_client ((([] @ [Delivered 0 [7, 8]]) @ [Wrote 0 [1, 2, 3]]) @ [Framed 0 [1, 2]]) ?w3"
    by (rule traces.extend traces.start t1 t2 t3)+
  then have "traces (client_trans ?X) sample_client (((([] @ [Delivered 0 [7, 8]]) @ [Wrote 0 [1, 2, 3]]) @ [Framed 0 [1, 2]]) @ [Took 0 [7]]) ?w4"
    using t4 by (rule traces.extend)
  then show ?thesis by (auto simp: sample_obs_def)
qed

text \<open>
  C4. The client refines the byte queues. Whatever the application calls and whatever ngtcp2
  does in its callbacks, packets and errors, the observations a run reports are a legal run of
  the queues (no byte is framed that is not next to be sent, none is read that is not next to
  be read), and afterwards the queues hold exactly what the abstraction of the client says.
\<close>

theorem client_refines_pipes:
  assumes "client_init w0" "traces (client_trans X) w0 obs w" "writev_contract X"
  shows "arun pipe_step obs (\<lambda>_. empty_pipe) = Some (pipes_of w)"
  using assms by (rule trace_pipes)

theorem client_refines_pipes_witness:
  "\<exists>w. traces (client_trans framing_ext) sample_client sample_obs w \<and>
     pipes_of w 0 = \<lparr>unsent_q = [3], unread_q = [8]\<rparr>"
proof -
  obtain w where w: "traces (client_trans framing_ext) sample_client sample_obs w"
    using sample_trace by blast
  from client_refines_pipes [OF sample_client_init w framing_ext_writev]
  have "pipes_of w = (\<lambda>_. empty_pipe)(0 := \<lparr>unsent_q = [3], unread_q = [8]\<rparr>)"
    by (simp add: sample_obs_def take_head_def empty_pipe_def)
  with w show ?thesis by auto
qed

text \<open>
  C5. Nothing is lost, duplicated or reordered between the two ends of a stream, in any run of
  the client: what the application wrote to an object is what ngtcp2 framed from it followed by
  what is still unsent, and what the transport delivered to it is what the application read
  from it followed by what is still unread. This holds for objects that were reset or closed too.
\<close>

theorem client_bytes_end_to_end:
  assumes "client_init w0" "traces (client_trans X) w0 obs w" "writev_contract X"
  shows "wrote r obs = framed r obs @ (case heap w r of None \<Rightarrow> [] | Some s \<Rightarrow> unsent s) \<and>
    delivered r obs = took r obs @ (case heap w r of None \<Rightarrow> [] | Some s \<Rightarrow> recv_buffer s)"
  using arun_pipe_bytes [OF trace_pipes [OF assms], of r]
  by (auto simp: empty_pipe_def pipes_of_def pipe_of_def split: option.splits)

theorem client_bytes_end_to_end_witness:
  "\<exists>w. traces (client_trans framing_ext) sample_client sample_obs w \<and>
     [1, 2, 3] = [1, 2] @ (case heap w 0 of None \<Rightarrow> [] | Some s \<Rightarrow> unsent s) \<and>
     [7, 8] = [7] @ (case heap w 0 of None \<Rightarrow> [] | Some s \<Rightarrow> recv_buffer s)"
proof -
  obtain w where w: "traces (client_trans framing_ext) sample_client sample_obs w"
    using sample_trace by blast
  from client_bytes_end_to_end [OF sample_client_init w framing_ext_writev, of 0] w
  show ?thesis by (auto simp: sample_obs_def)
qed

end
