(* ===== verification/Io_Progress.thy ===== *)
theory Io_Progress
  imports Io_Safety Client_Refinement
begin

unbundle bit_operations_syntax

text \<open>
  Progress of sending. \<open>pending_work\<close> counts what the registered streams still have to hand to
  ngtcp2; in a run in which ngtcp2 keeps framing what it is offered every packet reduces it, so the
  flushing loop of \<open>pump_once\<close> ends, and the frames ngtcp2 reported until then carry every byte and
  every FIN. Once the peer has acknowledged all of it, nothing is retained either.
\<close>

section \<open>Work left\<close>

definition work :: "stream \<Rightarrow> nat" where
  "work s = length (unsent s) + (if fin_sent s \<and> \<not> fin_flushed s then 1 else 0)"

definition work_at :: "'x client \<Rightarrow> nat \<Rightarrow> nat" where
  "work_at w r = (case heap w r of None \<Rightarrow> 0 | Some s \<Rightarrow> work s)"

definition pending_work :: "'x client \<Rightarrow> nat" where
  "pending_work w = sum_list (map (work_at w) (hash_values (streams w)))"

definition all_idle :: "'x client \<Rightarrow> bool" where
  "all_idle w \<longleftrightarrow> (\<forall>r \<in> set (hash_values (streams w)). \<forall>s. heap w r = Some s \<longrightarrow> idle s)"

lemma work_idle: "work s = 0 \<longleftrightarrow> idle s"
  by (auto simp: work_def idle_def)

lemma sum_list_less:
  fixes f :: "'b \<Rightarrow> nat"
  assumes "r \<in> set rs" "f r < g r" "\<And>q. f q \<le> g q"
  shows "sum_list (map f rs) < sum_list (map g rs)"
  using assms(1)
proof (induction rs)
  case (Cons q rs)
  have le: "sum_list (map f rs) \<le> sum_list (map g rs)" by (rule sum_list_mono) (rule assms(3))
  show ?case
  proof (cases "q = r")
    case True
    with assms(2) le show ?thesis by simp
  next
    case False
    with Cons assms(3) [of q] show ?thesis by (auto intro: add_le_less_mono)
  qed
qed simp

text \<open>Accounting for a packet reduces the work of the stream that was selected.\<close>

lemma account_work:
  assumes wf: "stream_wf s" and pick: "stream_pick K s = Some (dv, fl)" and K: "flags_nonzero K"
    and pd: "pd \<le> (case dv of None \<Rightarrow> 0 | Some d \<Rightarrow> int (length d))"
    and n: "0 < n" and progress: "\<And>d. dv = Some d \<Longrightarrow> 0 < pd"
  shows "work (stream_account K fl dv n pd s) < work s"
proof (cases dv)
  case None
  with stream_pick_fin [OF wf] pick have "fin_sent s" "\<not> fin_flushed s" "fl = WRITE_STREAM_FLAG_FIN K" by auto
  moreover have "unsent (stream_account K fl dv n pd s) = unsent s" using account_unsent [OF wf pick pd, of n] None by simp
  ultimately show ?thesis using None pd n K
    by (simp add: work_def stream_account_def flags_nonzero_def del: length_drop)
next
  case (Some v)
  with stream_pick_data [OF wf] pick have v: "v \<noteq> []" "\<not> fin_flushed s" by blast+
  from progress [OF Some] pd Some v have "0 < length (take (nat pd) v)" by simp
  moreover have "unsent s = take (nat pd) v @ unsent (stream_account K fl dv n pd s)"
    using account_unsent [OF wf pick pd, of n] Some by simp
  then have "length (unsent s) = length (take (nat pd) v) + length (unsent (stream_account K fl dv n pd s))"
    by (metis length_append)
  ultimately show ?thesis using v by (simp add: work_def del: length_drop length_take)
qed

section \<open>The frames of a flush\<close>

abbreviation fresh_args :: call_args where
  "fresh_args \<equiv> \<lparr>positional = [], kwargs = None\<rparr>"

lemma fresh_buffer:
  "bindE (rb_scan_args 0 1 False fresh_args) (\<lambda>(pos, opts). prepare_buffer K (pos ! 0)) = Inr ([], QUIC_WRITE_PKT_BUFLEN K)"
  by (simp add: rb_scan_args_def prepare_buffer_def NIL_P_def Let_def)

text \<open>
  The frames of a flush. For each packet, what ngtcp2 reports through \<open>pdatalen\<close>: \<open>-1\<close> means that
  the packet has no STREAM frame; otherwise it has one with the first \<open>pdatalen\<close> bytes of the
  offered vector, and with FIN if FIN was asked for and the frame holds the whole vector (the
  documentation of \<^verbatim>\<open>NGTCP2_WRITE_STREAM_FLAG_FIN\<close>). A frame is the stream object, its bytes and FIN.
\<close>

type_synonym frame = "nat \<times> bytes \<times> bool"

definition frames_in :: "ngtcp2_consts \<Rightarrow> send_pick option \<Rightarrow> writev_ret \<Rightarrow> frame list" where
  "frames_in K sel ret = (case sel of None \<Rightarrow> []
     | Some p \<Rightarrow> (let v = (case pk_datav p of None \<Rightarrow> [] | Some d \<Rightarrow> d) in
         if wv_pdatalen ret < 0 then []
         else [(pk_ref p, take (nat (wv_pdatalen ret)) v,
                pk_flags p AND WRITE_STREAM_FLAG_FIN K \<noteq> 0 \<and> nat (wv_pdatalen ret) = length v)]))"

definition frames_of :: "nat \<Rightarrow> frame list \<Rightarrow> (bytes \<times> bool) list" where
  "frames_of r log = map snd (filter (\<lambda>f. fst f = r) log)"

text \<open>One iteration of the loop: a packet is written, the socket takes it.\<close>

inductive flush_step :: "'x ext \<Rightarrow> nat \<Rightarrow> 'x client \<Rightarrow> frame list \<Rightarrow> 'x client \<Rightarrow> bool" for X so where
  packet: "writev_call X w = (ret, x) \<Longrightarrow> quic_client_write_pkt X fresh_args w = (Inr (Some pkt), buf, w1) \<Longrightarrow>
    x_sock_send X so pkt (ext_st w1) = (Inr (), x') \<Longrightarrow>
    flush_step X so w (frames_in (consts_of X) (quic_client_pick_send_stream (consts_of X) w) ret) (w1\<lparr>ext_st := x'\<rparr>)"

text \<open>
  ngtcp2 takes what the client offers in the state \<open>w\<close>: offered data, it writes a packet with at
  least one of the bytes; offered a FIN alone, a packet with the empty frame that carries it
  (\<open>pdatalen = 0\<close>); offered nothing, it has nothing to send. It invokes no stream callback
  meanwhile, and the socket takes the packet. The flow-control and congestion windows are open
  along a flush when this is so in every state the flush reaches.
\<close>

definition takes_offer :: "'x ext \<Rightarrow> nat \<Rightarrow> 'x client \<Rightarrow> bool" where
  "takes_offer X so w \<longleftrightarrow> (\<forall>ret x. writev_call X w = (ret, x) \<longrightarrow> wv_events ret = [] \<and>
     (case quic_client_pick_send_stream (consts_of X) w of None \<Rightarrow> wv_n ret = 0
      | Some p \<Rightarrow> 0 < wv_n ret \<and> (case pk_datav p of None \<Rightarrow> wv_pdatalen ret = 0 | Some d \<Rightarrow> 0 < wv_pdatalen ret))) \<and>
     (\<forall>pkt buf w1. quic_client_write_pkt X fresh_args w = (Inr (Some pkt), buf, w1) \<longrightarrow>
        fst (x_sock_send X so pkt (ext_st w1)) = Inr ())"

definition windows_open_along :: "'x ext \<Rightarrow> nat \<Rightarrow> 'x client \<Rightarrow> bool" where
  "windows_open_along X so w \<longleftrightarrow> (\<forall>log v. traces (flush_step X so) w log v \<longrightarrow> takes_offer X so v)"

lemma traces_before: "traces step u b v \<Longrightarrow> traces step w a u \<Longrightarrow> traces step w (a @ b) v"
  by (induction rule: traces.induct) (auto simp flip: append_assoc intro: traces.extend)

lemma traces_step: "step w a u \<Longrightarrow> traces step u b v \<Longrightarrow> traces step w (a @ b) v"
  using traces_before [OF _ traces.extend [OF traces.start, of step w a u]] by simp

lemma windows_open_now: "windows_open_along X so w \<Longrightarrow> takes_offer X so w"
  unfolding windows_open_along_def using traces.start [of "flush_step X so" w] by simp

lemma windows_open_step: "windows_open_along X so w \<Longrightarrow> flush_step X so w a u \<Longrightarrow> windows_open_along X so u"
  unfolding windows_open_along_def
proof (intro allI impI)
  fix log v
  assume open_w: "\<forall>log v. traces (flush_step X so) w log v \<longrightarrow> takes_offer X so v"
    and "flush_step X so w a u" "traces (flush_step X so) u log v"
  then have "traces (flush_step X so) w (a @ log) v" by (blast intro: traces_step)
  with open_w show "takes_offer X so v" by simp
qed

section \<open>What a stream has to frame\<close>

text \<open>
  The frames that finish the sending of a stream: their bytes are the unsent bytes in order, and
  FIN is on the last frame, if it was requested, and on no other; an idle stream needs no frame.
\<close>

definition finishing_frames :: "stream \<Rightarrow> (bytes \<times> bool) list \<Rightarrow> bool" where
  "finishing_frames s fs \<longleftrightarrow> concat (map fst fs) = unsent s \<and>
     (if idle s then fs = [] else fs \<noteq> [] \<and> map snd fs = replicate (length fs - 1) False @ [fin_sent s])"

lemma finishing_step:
  assumes wf: "stream_wf s" and pick: "stream_pick K s = Some (dv, fl)" and K: "flags_nonzero K"
    and pd: "pd \<le> (case dv of None \<Rightarrow> 0 | Some d \<Rightarrow> int (length d))"
    and n: "0 < n" and framed: "case dv of None \<Rightarrow> pd = 0 | Some d \<Rightarrow> 0 < pd"
    and rest: "finishing_frames (stream_account K fl dv n pd s) fs"
  shows "finishing_frames s ((take (nat pd) (case dv of None \<Rightarrow> [] | Some d \<Rightarrow> d),
    fl AND WRITE_STREAM_FLAG_FIN K \<noteq> 0 \<and> nat pd = length (case dv of None \<Rightarrow> [] | Some d \<Rightarrow> d)) # fs)"
proof -
  let ?s = "stream_account K fl dv n pd s"
  have busy: "\<not> idle s" using pick stream_pick_idle [OF wf, of K] by auto
  have un: "unsent s = take (nat pd) (case dv of None \<Rightarrow> [] | Some d \<Rightarrow> d) @ unsent ?s"
    using account_unsent [OF wf pick pd, of n] by (cases dv) simp_all
  show ?thesis
  proof (cases dv)
    case None
    with stream_pick_fin [OF wf] pick have f: "fin_sent s" "fl = WRITE_STREAM_FLAG_FIN K" "unsent s = []" by auto
    have "fin_flushed ?s" using None framed n f K by (simp add: stream_account_def flags_nonzero_def)
    with un f None have "idle ?s" by (simp add: idle_def del: length_drop)
    with rest have "fs = []" by (simp add: finishing_frames_def)
    with None framed f K busy show ?thesis by (simp add: finishing_frames_def flags_nonzero_def)
  next
    case (Some v)
    define b where "b \<longleftrightarrow> fl AND WRITE_STREAM_FLAG_FIN K \<noteq> 0 \<and> nat pd = length v"
    obtain r where r: "unsent s = v @ r" "\<not> fin_flushed s" "fl = 0 \<or> fl = WRITE_STREAM_FLAG_FIN K \<and> fin_sent s \<and> r = []"
      using stream_pick_data [OF wf] pick Some by blast
    have fl: "fin_flushed ?s = b" using Some framed r(2) by (simp add: stream_account_def b_def Let_def)
    have last: "fin_sent s" "idle ?s" if b
    proof -
      from that have "fl \<noteq> 0" "nat pd = length v" by (auto simp: b_def)
      with r(3) have "fin_sent s" "r = []" "take (nat pd) v = v" by simp_all
      with r(1) un Some have "unsent ?s = []" by simp
      with \<open>fin_sent s\<close> fl that show "fin_sent s" "idle ?s" by (simp_all add: idle_def del: drop_eq_Nil)
    qed
    have "idle ?s \<Longrightarrow> fin_sent s \<longrightarrow> b" using fl by (simp add: idle_def del: drop_eq_Nil)
    then have idle: "idle ?s \<Longrightarrow> fin_sent s = b" using last(1) by blast
    have fs: "map snd ((take (nat pd) v, b) # fs) = replicate (length fs) False @ [fin_sent s]"
    proof (cases "idle ?s")
      case True
      with rest idle show ?thesis by (simp add: finishing_frames_def)
    next
      case False
      then have "\<not> b" using last(2) by blast
      moreover have "fs \<noteq> []" "map snd fs = replicate (length fs - 1) False @ [fin_sent s]"
        using False rest by (simp_all add: finishing_frames_def)
      ultimately show ?thesis by (cases fs) simp_all
    qed
    have "concat (map fst ((take (nat pd) v, b) # fs)) = unsent s"
      using rest un Some by (simp add: finishing_frames_def)
    with fs busy show ?thesis unfolding Some finishing_frames_def b_def by simp
  qed
qed

section \<open>One packet\<close>

text \<open>With nothing to send \<open>write_pkt\<close> returns nil and changes no stream.\<close>

lemma write_pkt_idle:
  assumes X: "takes_offer X so w" and none: "quic_client_pick_send_stream (consts_of X) w = None"
  shows "\<exists>x. quic_client_write_pkt X fresh_args w = (Inr None, Some [], w\<lparr>ext_st := x\<rparr>)"
proof -
  obtain ret x where c: "writev_call X w = (ret, x)" by fastforce
  with X none have "wv_events ret = []" "wv_n ret = 0" by (auto simp: takes_offer_def)
  with c none show ?thesis
    unfolding quic_client_write_pkt_def Let_def fresh_buffer by (auto simp: account_selected_def)
qed

text \<open>
  With something to send there is an iteration; it changes the selected stream only, there is less
  work afterwards, and its frame followed by frames that finish the new state finish the old one.
\<close>

lemma flush_iteration:
  assumes X: "takes_offer X so w" "writev_contract X" "flags_nonzero (consts_of X)" and wf: "client_wf w"
    and sel: "quic_client_pick_send_stream (consts_of X) w = Some p"
  obtains log w' pkt buf w1 x' s s' where "flush_step X so w log w'"
    "quic_client_write_pkt X fresh_args w = (Inr (Some pkt), buf, w1)" "x_sock_send X so pkt (ext_st w1) = (Inr (), x')"
    "w' = w1\<lparr>ext_st := x'\<rparr>" "client_wf w'" "streams w' = streams w" "pending_work w' < pending_work w"
    "heap w (pk_ref p) = Some s" "heap w' = (heap w)(pk_ref p \<mapsto> s')" "\<forall>q. q \<noteq> pk_ref p \<longrightarrow> frames_of q log = []"
    "\<forall>fs. finishing_frames s' fs \<longrightarrow> finishing_frames s (frames_of (pk_ref p) log @ fs)"
proof -
  let ?K = "consts_of X"
  obtain ret x where c: "writev_call X w = (ret, x)" by fastforce
  obtain s where s: "pk_ref p \<in> set (hash_values (streams w))" "heap w (pk_ref p) = Some s"
    "stream_pick ?K s = Some (pk_datav p, pk_flags p)"
    using pick_loop_Some [of ?K "heap w" "hash_values (streams w)" p] sel unfolding quic_client_pick_send_stream_def by blast
  have swf: "stream_wf s" using client_wf_obj [OF wf s(2)] by (simp add: obj_wf_def)
  have r: "wv_events ret = []" "0 < wv_n ret" "case pk_datav p of None \<Rightarrow> wv_pdatalen ret = 0 | Some d \<Rightarrow> 0 < wv_pdatalen ret"
    using X(1) c sel by (auto simp: takes_offer_def)
  then have nn: "0 \<le> wv_pdatalen ret" by (auto split: option.splits)
  have call: "x_writev_stream X (pk_flags p) (pk_sid p) (pk_datav p) (QUIC_WRITE_PKT_BUFLEN ?K) (fst (quic_now X (ext_st w))) (snd (quic_now X (ext_st w))) = (ret, x)"
    using c sel by (simp add: writev_call_def Let_def split: prod.splits)
  have pd: "wv_pdatalen ret \<le> (case pk_datav p of None \<Rightarrow> 0 | Some d \<Rightarrow> int (length d))"
    using writev_contractD(1) [OF X(2) call] .
  let ?s = "stream_account ?K (pk_flags p) (pk_datav p) (wv_n ret) (wv_pdatalen ret) s"
  let ?w = "put_stream (pk_ref p) ?s (w\<lparr>ext_st := x\<rparr>)"
  let ?pkt = "take (nat (wv_n ret)) (overlay (wv_packet ret) [])"
  have o: "quic_client_write_pkt X fresh_args w = (Inr (Some ?pkt), Some ?pkt, ?w)"
    unfolding quic_client_write_pkt_def Let_def fresh_buffer c
    using r(1,2) sel s(2) by (simp add: account_selected_def)
  then obtain x' where sent: "x_sock_send X so ?pkt (ext_st ?w) = (Inr (), x')"
    using X(1) unfolding takes_offer_def by (metis prod.collapse)
  let ?log = "frames_in ?K (quic_client_pick_send_stream ?K w) ret" and ?w' = "?w\<lparr>ext_st := x'\<rparr>"
  have step: "flush_step X so w ?log ?w'" using c o sent by (rule flush_step.packet)
  have lt: "work ?s < work s" using account_work [OF swf s(3) X(3) pd r(2)] r(3) by fastforce
  have "work_at ?w' q \<le> work_at w q" for q using lt s(2) by (simp add: work_at_def put_stream_def)
  moreover have "work_at ?w' (pk_ref p) < work_at w (pk_ref p)" using lt s(2) by (simp add: work_at_def put_stream_def)
  ultimately have less: "pending_work ?w' < pending_work w"
    using sum_list_less [OF s(1)] by (simp add: pending_work_def put_stream_def)
  have wf': "client_wf ?w'"
    using advances_write_pkt [OF wf X(2) c, of fresh_args] r(1) o by (simp add: advances_def)
  have log: "?log = [(pk_ref p, take (nat (wv_pdatalen ret)) (case pk_datav p of None \<Rightarrow> [] | Some d \<Rightarrow> d),
      pk_flags p AND WRITE_STREAM_FLAG_FIN ?K \<noteq> 0 \<and> nat (wv_pdatalen ret) = length (case pk_datav p of None \<Rightarrow> [] | Some d \<Rightarrow> d))]"
    using sel nn by (simp add: frames_in_def Let_def)
  have "finishing_frames s (frames_of (pk_ref p) ?log @ fs)" if "finishing_frames ?s fs" for fs
    using finishing_step [OF swf s(3) X(3) pd r(2,3) that] unfolding log by (simp add: frames_of_def)
  moreover have "frames_of q ?log = []" if "q \<noteq> pk_ref p" for q unfolding log using that by (simp add: frames_of_def)
  moreover have "heap ?w' = (heap w)(pk_ref p \<mapsto> ?s)" by (simp add: put_stream_def)
  ultimately show ?thesis using that [OF step o sent refl wf' _ less s(2)] by (simp add: put_stream_def)
qed

section \<open>Flushing\<close>

lemma pending_work_ext [simp]: "pending_work (w\<lparr>ext_st := x\<rparr>) = pending_work w"
  by (simp add: pending_work_def work_at_def [abs_def])

lemma frames_of_append: "frames_of r (a @ b) = frames_of r a @ frames_of r b"
  by (simp add: frames_of_def)

text \<open>
  C8. Flushing sends everything. If, in the states this flush goes through, ngtcp2 takes what it is
  offered and the socket takes the packets, then the loop at the start of \<open>pump_once\<close> ends
  normally. For every registered stream the frames ngtcp2 reported meanwhile carry exactly the
  bytes that were unsent, in order, and FIN on the last of them and only there if it was requested
  and not flushed before; and \<open>fin_flushed\<close> and the counters say so: the stream is idle.
\<close>

theorem flush_sends_everything:
  assumes X: "windows_open_along X so w" "writev_contract X" "flags_nonzero (consts_of X)" and wf: "client_wf w"
  shows "\<exists>log v w'. traces (flush_step X so) w log v \<and> quic_client_write_pkt X fresh_args v = (Inr None, Some [], w') \<and>
    pump_flush X so w = Some (Inr (), w') \<and> streams w' = streams w \<and> client_wf w' \<and> all_idle w' \<and>
    (\<forall>r s. r \<in> set (hash_values (streams w)) \<and> heap w r = Some s \<longrightarrow> finishing_frames s (frames_of r log))"
  using X(1) wf
proof (induction "pending_work w" arbitrary: w rule: less_induct)
  case less
  note open_now = windows_open_now [OF less.prems(1)]
  show ?case
  proof (cases "quic_client_pick_send_stream (consts_of X) w")
    case None
    from write_pkt_idle [OF open_now None] obtain x where
      o: "quic_client_write_pkt X fresh_args w = (Inr None, Some [], w\<lparr>ext_st := x\<rparr>)" by blast
    have idle: "idle s" if "r \<in> set (hash_values (streams w))" "heap w r = Some s" for r s
      using None that stream_pick_idle client_wf_obj [OF less.prems(2) that(2)]
      by (auto simp: quic_client_pick_send_stream_def pick_loop_None obj_wf_def)
    then have "all_idle (w\<lparr>ext_st := x\<rparr>)" by (simp add: all_idle_def)
    moreover have "pump_flush X so w = Some (Inr (), w\<lparr>ext_st := x\<rparr>)" by (subst pump_flush.simps) (simp add: o)
    moreover have "finishing_frames s (frames_of r [])" if "r \<in> set (hash_values (streams w))" "heap w r = Some s" for r s
      using idle [OF that] by (simp add: finishing_frames_def frames_of_def idle_def)
    ultimately show ?thesis using o less.prems(2) by (intro exI [of _ "[]"] exI [of _ w] exI [of _ "w\<lparr>ext_st := x\<rparr>"]) (auto intro: traces.start)
  next
    case (Some p)
    obtain log1 w1' pkt buf w1 x' s s' where step: "flush_step X so w log1 w1'"
      and o: "quic_client_write_pkt X fresh_args w = (Inr (Some pkt), buf, w1)" "x_sock_send X so pkt (ext_st w1) = (Inr (), x')"
        "w1' = w1\<lparr>ext_st := x'\<rparr>"
      and w1: "client_wf w1'" "streams w1' = streams w" "pending_work w1' < pending_work w"
      and s: "heap w (pk_ref p) = Some s" "heap w1' = (heap w)(pk_ref p \<mapsto> s')" "\<forall>q. q \<noteq> pk_ref p \<longrightarrow> frames_of q log1 = []"
        "\<forall>fs. finishing_frames s' fs \<longrightarrow> finishing_frames s (frames_of (pk_ref p) log1 @ fs)"
      by (rule flush_iteration [OF open_now X(2,3) less.prems(2) Some])
    obtain log v w' where t: "traces (flush_step X so) w1' log v" "quic_client_write_pkt X fresh_args v = (Inr None, Some [], w')"
      and f: "pump_flush X so w1' = Some (Inr (), w')" "streams w' = streams w1'" "client_wf w'" "all_idle w'"
      and fr: "\<And>r s. r \<in> set (hash_values (streams w1')) \<Longrightarrow> heap w1' r = Some s \<Longrightarrow> finishing_frames s (frames_of r log)"
      using less.hyps [OF w1(3) windows_open_step [OF less.prems(1) step] w1(1)] by blast
    have "finishing_frames s0 (frames_of r (log1 @ log))" if r: "r \<in> set (hash_values (streams w))" "heap w r = Some s0" for r s0
    proof (cases "r = pk_ref p")
      case True
      with fr [of r s'] r s w1(2) have "finishing_frames s' (frames_of r log)" by simp
      with s(4) True r(2) s(1) show ?thesis by (simp add: frames_of_append)
    next
      case False
      with fr [of r s0] r s w1(2) show ?thesis by (simp add: frames_of_append)
    qed
    moreover have "pump_flush X so w = Some (Inr (), w')" using o f(1) by (subst pump_flush.simps) simp
    ultimately show ?thesis
      using traces_step [OF step t(1)] t(2) f(2-4) w1(2)
      by (intro exI [of _ "log1 @ log"] exI [of _ v] exI [of _ w']) simp
  qed
qed

text \<open>An ngtcp2 with open windows that frames two bytes of a vector at a time.\<close>

definition open_ext :: "unit ext" where
  "open_ext = sample_ext\<lparr>x_writev_stream := (\<lambda>flags sid data destlen ts x.
     (\<lparr>wv_n = (if destlen = 0 \<or> data = None \<and> flags = 0 then 0 else 1),
        wv_pdatalen = (case data of None \<Rightarrow> if flags = 0 then -1 else 0 | Some d \<Rightarrow> min 2 (int (length d))),
        wv_packet = [0], wv_events = []\<rparr>, x))\<rparr>"

lemma open_ext_ok: "writev_contract open_ext" "flags_nonzero (consts_of open_ext)"
  by (auto simp: writev_contract_def open_ext_def sample_consts_ok split: option.splits)

lemma open_ext_takes:
  assumes wf: "client_wf w"
  shows "takes_offer open_ext so w"
proof (cases "quic_client_pick_send_stream sample_consts w")
  case None
  then show ?thesis
    by (auto simp: takes_offer_def writev_call_def open_ext_def sample_ext_def split: prod.splits)
next
  case (Some p)
  then obtain s where s: "heap w (pk_ref p) = Some s" "stream_pick sample_consts s = Some (pk_datav p, pk_flags p)"
    using pick_loop_Some unfolding quic_client_pick_send_stream_def by blast
  have swf: "stream_wf s" using client_wf_obj [OF wf s(1)] by (simp add: obj_wf_def)
  have "pk_datav p = None \<Longrightarrow> pk_flags p \<noteq> 0" "pk_datav p = Some v \<Longrightarrow> v \<noteq> []" for v
    using stream_pick_fin [OF swf] stream_pick_data [OF swf] s(2) sample_consts_ok(2) by (fastforce simp: flags_nonzero_def)+
  with Some show ?thesis
    by (auto simp: takes_offer_def writev_call_def open_ext_def sample_ext_def QUIC_WRITE_PKT_BUFLEN_def sample_consts_def
        split: prod.splits option.splits)
qed

lemma open_ext_along: "client_wf w \<Longrightarrow> windows_open_along open_ext so w"
proof -
  assume wf: "client_wf w"
  have "client_wf v" if "traces (flush_step open_ext so) w log v" for log v
    using that wf
  proof (induction rule: traces.induct)
    case (extend w obs w1 obs' w')
    then have wf1: "client_wf w1" by simp
    from extend.hyps(2) show ?case
    proof cases
      case (packet ret x pkt buf w2 x')
      have "wv_events ret = []" using open_ext_takes [OF wf1] packet(3) by (simp add: takes_offer_def)
      with advances_write_pkt [OF wf1 open_ext_ok(1) packet(3), of fresh_args] packet show ?thesis by (simp add: advances_def)
    qed
  qed simp
  then show ?thesis using open_ext_takes by (auto simp: windows_open_along_def)
qed

text \<open>A client with five bytes and FIN queued on stream 0, in two chunks.\<close>

definition queued_client :: "unit client" where
  "queued_client = sample_client\<lparr>heap := [0 \<mapsto> (quic_stream_new 0 True)\<lparr>pending_chunks := [[1, 2, 3], [4, 5]], fin_sent := True\<rparr>],
     next_ref := 1, streams := [(0, 0)]\<rparr>"

lemma queued_client_wf: "client_wf queued_client"
  by (auto simp: client_wf_def registry_wf_def queue_wf_def obj_wf_def stream_wf_def queued_client_def
      sample_client_def LL2NUM_def split: if_splits)

theorem flush_sends_everything_witness:
  "\<exists>log w. pump_flush open_ext 3 queued_client = Some (Inr (), w) \<and> all_idle w \<and>
     concat (map fst (frames_of 0 log)) = [1, 2, 3, 4, 5] \<and> snd (last (frames_of 0 log)) \<and>
     (\<exists>v. traces (flush_step open_ext 3) queued_client log v)"
proof -
  let ?s = "(quic_stream_new 0 True)\<lparr>pending_chunks := [[1, 2, 3], [4, 5]], fin_sent := True\<rparr>"
  from flush_sends_everything [OF open_ext_along [OF queued_client_wf, of 3] open_ext_ok queued_client_wf]
  obtain log v w where w: "traces (flush_step open_ext 3) queued_client log v" "pump_flush open_ext 3 queued_client = Some (Inr (), w)"
    "all_idle w" and fr: "\<And>r s. r \<in> set (hash_values (streams queued_client)) \<and> heap queued_client r = Some s \<longrightarrow>
      finishing_frames s (frames_of r log)"
    by blast
  have "0 \<in> set (hash_values (streams queued_client))" "heap queued_client 0 = Some ?s"
    by (simp_all add: queued_client_def hash_values_def)
  with fr [of 0 ?s] have f: "finishing_frames ?s (frames_of 0 log)" by blast
  have "\<not> idle ?s" "unsent ?s = [1, 2, 3, 4, 5]" by (simp_all add: idle_def)
  with f have c: "concat (map fst (frames_of 0 log)) = [1, 2, 3, 4, 5]" "frames_of 0 log \<noteq> []"
    "map snd (frames_of 0 log) = replicate (length (frames_of 0 log) - 1) False @ [True]"
    by (simp_all add: finishing_frames_def)
  from c(2) last_map [of "frames_of 0 log" snd] c(3) have "snd (last (frames_of 0 log))" by simp
  with w c(1) show ?thesis by blast
qed

section \<open>Acknowledged bytes are released\<close>

text \<open>
  C9. No byte is retained for longer than it is needed: the callback that acknowledges the last
  byte an application wrote empties the retransmission buffer of the stream, however the bytes
  were split into chunks and acknowledgements before.
\<close>

theorem last_ack_releases_buffer:
  assumes wf: "client_wf w" and ok: "event_ok w (Acked_stream_data_offset sid off d)"
    and s: "quic_client_lookup_stream w sid = Some r" "heap w r = Some s"
    and last: "unat (acked_offset s) + unat d = unat (pending_shifted s) + length (retained s)"
  shows "\<exists>s'. heap (run_event K (Acked_stream_data_offset sid off d) w) r = Some s' \<and> pending_chunks s' = [] \<and>
    pending_shifted s' = sent_offset s' \<and> acked_offset s' = sent_offset s'"
proof -
  have swf: "stream_wf s" using client_wf_obj [OF wf s(2)] by (simp add: obj_wf_def)
  have le: "unat (acked_offset s) + unat d \<le> unat (sent_offset s)" using ok s by simp
  then have sent: "unat (sent_offset s) = unat (pending_shifted s) + length (retained s)"
    using last swf by (simp add: stream_wf_def)
  let ?s = "stream_acked d s"
  have "pending_chunks ?s = [] \<and> pending_shifted ?s = sent_offset s \<and> acked_offset ?s = sent_offset s"
  proof (rule stream_acked_spec [OF swf le])
    fix dropped
    assume pc: "pending_chunks s = dropped @ pending_chunks ?s"
      and sh: "unat (pending_shifted ?s) = unat (pending_shifted s) + nbytes dropped"
      and ac: "unat (acked_offset ?s) = unat (acked_offset s) + unat d"
      and hd: "pending_chunks ?s \<noteq> [] \<Longrightarrow> unat (acked_offset ?s) < unat (pending_shifted ?s) + length (hd (pending_chunks ?s))"
    have tot: "unat (acked_offset ?s) = unat (pending_shifted ?s) + nbytes (pending_chunks ?s)"
      using ac last sh arg_cong [OF pc, of nbytes] by (simp add: length_concat)
    have e: "pending_chunks ?s = []"
    proof (rule ccontr)
      assume ne: "pending_chunks ?s \<noteq> []"
      from hd [OF ne] tot have "nbytes (pending_chunks ?s) < length (hd (pending_chunks ?s))" by simp
      with ne show False by (cases "pending_chunks ?s") simp_all
    qed
    with tot ac last sent have "unat (pending_shifted ?s) = unat (sent_offset s)" "unat (acked_offset ?s) = unat (sent_offset s)"
      by simp_all
    with e show ?thesis by (simp add: word_unat_eq_iff)
  qed
  with s show ?thesis by (simp add: quic_acked_stream_data_offset_cb_def put_stream_def)
qed

theorem last_ack_releases_buffer_witness:
  "\<exists>s. heap (run_event sample_consts (Acked_stream_data_offset 0 2 3)
       (queued_client\<lparr>heap := [0 \<mapsto> (quic_stream_new 0 True)\<lparr>pending_chunks := [[1, 2, 3], [4, 5]], sent_offset := 5, acked_offset := 2\<rparr>]\<rparr>)) 0 =
     Some s \<and> pending_chunks s = [] \<and> pending_shifted s = 5"
proof -
  let ?s = "(quic_stream_new 0 True)\<lparr>pending_chunks := [[1, 2, 3], [4, 5]], sent_offset := 5, acked_offset := 2\<rparr>"
  let ?w = "queued_client\<lparr>heap := [0 \<mapsto> ?s]\<rparr>"
  have wf: "client_wf ?w"
    by (auto simp: client_wf_def registry_wf_def queue_wf_def obj_wf_def stream_wf_def queued_client_def
        sample_client_def LL2NUM_def split: if_splits)
  have l: "quic_client_lookup_stream ?w 0 = Some 0" "heap ?w 0 = Some ?s"
    by (simp_all add: quic_client_lookup_stream_def queued_client_def LL2NUM_def)
  have ok: "event_ok ?w (Acked_stream_data_offset 0 2 3)" using l by simp
  from last_ack_releases_buffer [OF wf ok l] show ?thesis by (auto simp: quic_acked_stream_data_offset_cb_def l put_stream_def)
qed

end
