(* ===== verification/Io_Accept.thy ===== *)
theory Io_Accept
  imports Io_Safety
begin

unbundle bit_operations_syntax

text \<open>
  What \<^verbatim>\<open>accept_stream\<close> hands out: a live stream object that the server opened, which no later
  call hands out again. The initiator of a stream is read off its id by the table of
  \<^verbatim>\<open>lib/quic/stream.rb\<close>; the callbacks test a bit of the id in C: both say the same.
\<close>

section \<open>The initiator\<close>

definition server_initiated :: "stream \<Rightarrow> bool" where
  "server_initiated s \<longleftrightarrow> initiator s \<in> {Server_bidi, Server_uni}"

lemma and3_cases: "(i :: int) AND 3 = i mod 4"
  using take_bit_eq_mask [of 2 i] by (simp add: take_bit_eq_mod mask_eq_exp_minus_1)

lemma LL2NUM_odd: "odd (LL2NUM sid) \<longleftrightarrow> sid AND 1 \<noteq> 0"
proof -
  have "odd (LL2NUM sid) \<longleftrightarrow> bit sid 0" by (simp add: LL2NUM_def bit_0 [symmetric] bit_sint_iff)
  also have "\<dots> \<longleftrightarrow> sid AND 1 \<noteq> 0" by (simp add: and_one_eq mod_2_eq_odd bit_0)
  finally show ?thesis .
qed

text \<open>The table of Ruby and the bit of C agree.\<close>

lemma server_initiated_bit:
  assumes "iv_id s = LL2NUM (stream_id s)"
  shows "server_initiated s \<longleftrightarrow> stream_id s AND 1 \<noteq> 0"
proof -
  have m: "iv_id s mod 4 \<in> {0, 1, 2, 3}" by (auto simp: insert_commute)
  then have "server_initiated s \<longleftrightarrow> odd (iv_id s)"
    by (auto simp: server_initiated_def initiator_def and3_cases INITIATORS_def) presburger+
  then show ?thesis using assms LL2NUM_odd by simp
qed

section \<open>Accepting\<close>

text \<open>\<open>handed_out r w\<close>: the object \<open>r\<close> is live, the server opened it, and it has left the queue for good.\<close>

definition handed_out :: "nat \<Rightarrow> 'x client \<Rightarrow> bool" where
  "handed_out r w \<longleftrightarrow> r \<notin> set (accept_queue w) \<and>
     (\<exists>s. heap w r = Some s \<and> has_client s \<and> accept_queued s \<and> server_initiated s)"

lemma advances_shift: "client_wf w \<Longrightarrow> ary_shift (accept_queue w) = (a, q) \<Longrightarrow> advances w (w\<lparr>accept_queue := q\<rparr>)"
  using advances_accept [of w] by (cases a) (auto simp: accept_stream_nonblock_def)

lemma shift_handed_out:
  assumes wf: "client_wf w" and sh: "ary_shift (accept_queue w) = (Some r, q)"
  shows "handed_out r (w\<lparr>accept_queue := q\<rparr>)"
proof -
  have aq: "accept_queue w = r # q" using sh by (cases "accept_queue w") simp_all
  with wf obtain s where s: "heap w r = Some s" "accept_queued s" "r \<notin> set q"
    by (auto simp: client_wf_def queue_wf_def)
  then have "stream_id s AND 1 \<noteq> 0" "iv_id s = LL2NUM (stream_id s)" "has_client s"
    using client_wf_obj [OF wf] by (auto simp: obj_wf_def)
  with s server_initiated_bit show ?thesis by (auto simp: handed_out_def)
qed

definition accept_result :: "'x client \<Rightarrow> (exn + nat option) \<times> 'x client \<Rightarrow> bool" where
  "accept_result w y \<longleftrightarrow> advances w (snd y) \<and> (\<forall>r. fst y = Inr (Some r) \<longrightarrow> handed_out r (snd y))"

lemma accept_result_trans: "advances w v \<Longrightarrow> accept_result v y \<Longrightarrow> accept_result w y"
  by (auto simp: accept_result_def intro: advances_trans)

text \<open>Shifting an empty queue changes nothing, and reading the clock is a step of the loop.\<close>

lemma shift_None: "ary_shift (accept_queue w) = (None, q) \<Longrightarrow> w\<lparr>accept_queue := q\<rparr> = w"
  by (cases w; cases "accept_queue w") auto

lemma clock_ns_state: obtains n x where "clock_ns X w = (n, w\<lparr>ext_st := x\<rparr>)" "io_step X w (w\<lparr>ext_st := x\<rparr>)"
  by (cases "x_clock_gettime X (ext_st w)") (auto simp: clock_ns_def intro: io_step.environment env_call.clock split: prod.splits)

lemma accept_loop_result:
  assumes X: "writev_contract X" and l: "accept_loop X deadline w = Some y"
  shows "callbacks_ok_from X w \<Longrightarrow> client_wf w \<Longrightarrow> accept_result w y"
proof -
  have "X = X \<longrightarrow> callbacks_ok_from X w \<longrightarrow> client_wf w \<longrightarrow> accept_result w y"
  proof (rule accept_loop.raw_induct [of "\<lambda>X' d w y. X' = X \<longrightarrow> callbacks_ok_from X w \<longrightarrow> client_wf w \<longrightarrow> accept_result w y", OF _ l], intro impI, goal_cases)
    case (1 al X' d w y)
    note ih = 1(1) and X' = 1(3) and ok = 1(4) and wf = 1(5)
    obtain remaining w1 where c: "(case d of None \<Rightarrow> (None, w)
            | Some d \<Rightarrow> (case clock_ns X w of (now, w1) \<Rightarrow> (Some (d - now), w1))) = (remaining, w1)" and s1: "(io_step X)\<^sup>*\<^sup>* w w1"
    proof (cases d)
      case None
      then show ?thesis using that [of None w] by simp
    next
      case (Some t)
      obtain n x where "clock_ns X w = (n, w\<lparr>ext_st := x\<rparr>)" "io_step X w (w\<lparr>ext_st := x\<rparr>)" by (rule clock_ns_state)
      with Some show ?thesis using that by auto
    qed
    note body = 1(2) [unfolded X' c prod.case]
    have a1: "advances w w1" by (rule io_run_advances [OF s1 X ok wf])
    show ?case
    proof (cases "case remaining of None \<Rightarrow> False | Some t \<Rightarrow> t \<le> 0")
      case True
      with body c X' a1 show ?thesis by (auto simp: accept_result_def)
    next
      case False
      then obtain res w2 where p: "pump_once X remaining w1 = Some (res, w2)"
        using body c X' by (auto split: option.splits)
      have s2: "(io_step X)\<^sup>*\<^sup>* w w2" using s1 ios.once_rel [OF p] by (rule rtranclp_trans)
      have a2: "advances w w2" by (rule io_run_advances [OF s2 X ok wf])
      then have wf2: "client_wf w2" by (simp add: advances_def)
      obtain st q where q: "ary_shift (accept_queue w2) = (st, q)" by fastforce
      have a: "advances w (w2\<lparr>accept_queue := q\<rparr>)"
        using a2 advances_shift [OF wf2 q] by (rule advances_trans)
      show ?thesis
      proof (cases res)
        case (Inl e)
        with body c X' False p a2 show ?thesis by (auto simp: accept_result_def)
      next
        case (Inr u)
        show ?thesis
        proof (cases st)
          case None
          with q have e: "w2\<lparr>accept_queue := q\<rparr> = w2" by (simp add: shift_None)
          with Inr None body c X' False p q have "al X d w2 = Some y" by simp
          from ih [OF this] callbacks_ok_later [OF ok s2] wf2 have "accept_result w2 y" by blast
          with a2 show ?thesis by (rule accept_result_trans)
        next
          case (Some r)
          with Inr body c X' False p q a shift_handed_out [OF wf2] show ?thesis by (auto simp: accept_result_def)
        qed
      qed
    qed
  qed
  then show "callbacks_ok_from X w \<Longrightarrow> client_wf w \<Longrightarrow> ?thesis" by simp
qed

text \<open>
  C20. \<open>accept_stream\<close> hands out only streams the server opened. When it returns a stream, with or
  without a timeout, after any number of pumps, the stream is a live object of the client whose
  \<open>initiator\<close> is the server, it has left the accept queue, and the client is well-formed. ngtcp2 may
  invoke any callbacks meanwhile that are admissible in the states of the run.
\<close>

theorem accept_stream_server:
  assumes X: "writev_contract X" "callbacks_ok_from X w" and wf: "client_wf w"
    and acc: "accept_stream X timeout w = Some (Inr (Some r), w')"
  shows "client_wf w' \<and> client_le w w' \<and> handed_out r w'"
proof -
  obtain st q where q: "ary_shift (accept_queue w) = (st, q)" by fastforce
  have "accept_result w (Inr (Some r), w')"
  proof (cases st)
    case (Some r0)
    with acc q advances_shift [OF wf q] shift_handed_out [OF wf] show ?thesis by (auto simp: accept_stream_def accept_result_def)
  next
    case None
    with q have e: "w\<lparr>accept_queue := q\<rparr> = w" by (simp add: shift_None)
    obtain n x where c: "clock_ns X w = (n, w\<lparr>ext_st := x\<rparr>)" "io_step X w (w\<lparr>ext_st := x\<rparr>)" by (rule clock_ns_state)
    obtain deadline v where l: "accept_loop X deadline v = Some (Inr (Some r), w')" "v = w \<or> v = w\<lparr>ext_st := x\<rparr>"
      using acc None q c(1) e by (auto simp: accept_stream_def Let_def split: if_splits option.splits)
    have s: "(io_step X)\<^sup>*\<^sup>* w v" using l(2) c(2) by auto
    have a: "advances w v" by (rule io_run_advances [OF s X wf])
    moreover from this have "accept_result v (Inr (Some r), w')"
      using accept_loop_result [OF X(1) l(1) callbacks_ok_later [OF X(2) s]] by (simp add: advances_def)
    ultimately show ?thesis by (rule accept_result_trans)
  qed
  then show ?thesis by (simp add: accept_result_def advances_def)
qed

text \<open>A call that pumps: the peer acknowledges five bytes and opens stream 1, which is returned.\<close>

theorem accept_stream_server_witness:
  "\<exists>w'. accept_stream peer_ext None (asking {}) = Some (Inr (Some 1), w') \<and> client_wf w' \<and> handed_out 1 w' \<and>
     acked_offset (the (heap w' 0)) = 5"
proof -
  have "in_talk {} (asking {})" using in_talkI(1) [of "{}" None None] by (simp add: memo_def asking_def)
  then have ok: "callbacks_ok_from peer_ext (asking {})" by (rule in_talk_from)
  have q: "accept_queue (asking {}) = []" "(asking {})\<lparr>accept_queue := []\<rparr> = asking {}" by (simp_all add: asking_def)
  have "accept_queue (memo a b (answered {})) = [1]" for a b by (simp add: talk_defs)
  then have "accept_loop peer_ext None (asking {}) = Some (Inr (Some 1), (memo (Some []) (Some []) (answered {}))\<lparr>accept_queue := []\<rparr>)"
    by (subst accept_loop.simps) (simp add: peer_pump)
  with q have acc: "accept_stream peer_ext None (asking {}) =
      Some (Inr (Some 1), (memo (Some []) (Some []) (answered {}))\<lparr>accept_queue := []\<rparr>)"
    by (simp add: accept_stream_def q)
  from accept_stream_server [OF peer_writev ok asking_wf acc] acc show ?thesis by (auto simp: talk_defs)
qed

end
