(* ===== verification/Equivalences.thy ===== *)
theory Equivalences
  imports Client_Refinement Io_Loop
begin

unbundle bit_operations_syntax

text \<open>
  Different ways to say the same thing to a client. ngtcp2 is free to split a range of
  acknowledged bytes over several \<open>acked_stream_data_offset\<close> callbacks and the data of a stream
  over several \<open>recv_stream_data\<close> callbacks; the client does not depend on the split. An
  application may write with or without waiting; when there is nothing to wait for the two agree.
\<close>

section \<open>Replacing an object twice\<close>

lemma put_put [simp]: "put_stream r s' (put_stream r s w) = put_stream r s' w"
  by (simp add: put_stream_def)

lemma heap_put [simp]: "heap (put_stream r s w) r = Some s"
  by (simp add: put_stream_def)

lemma lookup_put [simp]: "quic_client_lookup_stream (put_stream r s w) sid = quic_client_lookup_stream w sid"
  by (simp add: quic_client_lookup_stream_def put_stream_def)

section \<open>Acknowledgements\<close>

lemma shift_acked_mono:
  "shift_acked a sh cs = (sh1, cs1) \<Longrightarrow> a \<le> b \<Longrightarrow> shift_acked b sh1 cs1 = shift_acked b sh cs"
proof (induction a sh cs rule: shift_acked.induct)
  case (2 a sh c cs)
  show ?case
  proof (cases "sh + of_nat (length c) \<le> a")
    case True
    with 2 order.trans [OF True "2.prems"(2)] show ?thesis by (simp add: Let_def)
  qed (use 2 in \<open>auto simp: Let_def\<close>)
qed simp

lemma stream_acked_twice:
  assumes "unat (acked_offset s) + unat d1 + unat d2 < 2 ^ 64"
  shows "stream_acked d2 (stream_acked d1 s) = stream_acked (d1 + d2) s"
proof -
  let ?a = "acked_offset s + d1"
  have a: "unat ?a = unat (acked_offset s) + unat d1" using assms by (intro unat_plus64) simp
  then have "unat (?a + d2) = unat ?a + unat d2" using assms by (intro unat_plus64) simp
  then have le: "?a \<le> ?a + d2" by (simp add: word_le_nat_alt)
  obtain sh1 cs1 where s1: "shift_acked ?a (pending_shifted s) (pending_chunks s) = (sh1, cs1)" by fastforce
  from shift_acked_mono [OF s1 le] s1 show ?thesis
    by (simp add: stream_acked_def Let_def add.assoc split: prod.splits)
qed

definition acks :: "uint64 \<Rightarrow> (uint64 \<times> uint64) list \<Rightarrow> ngtcp2_event list" where
  "acks sid = map (\<lambda>(off, d). Acked_stream_data_offset sid off d)"

lemma acked_offset_acked: "acked_offset (stream_acked d s) = acked_offset s + d"
  by (simp add: stream_acked_def Let_def split: prod.splits)

lemma acked_cb_twice:
  assumes wf: "client_wf w" and ok: "event_ok w (Acked_stream_data_offset sid off1 d1)"
    "event_ok (run_event K (Acked_stream_data_offset sid off1 d1) w) (Acked_stream_data_offset sid off2 d2)"
  shows "run_event K (Acked_stream_data_offset sid off2 d2) (run_event K (Acked_stream_data_offset sid off1 d1) w) =
      run_event K (Acked_stream_data_offset sid off (d1 + d2)) w \<and>
    event_ok w (Acked_stream_data_offset sid off (d1 + d2))"
proof (cases "quic_client_lookup_stream w sid")
  case (Some r)
  then obtain s where s: "heap w r = Some s" using lookup_live [OF wf] by blast
  have le1: "unat (acked_offset s) + unat d1 \<le> unat (sent_offset s)" using ok(1) Some s by simp
  then have a: "unat (acked_offset s + d1) = unat (acked_offset s) + unat d1"
    using unat_lt64 [of "sent_offset s"] by (intro unat_plus64) simp
  then have le2: "unat (acked_offset s) + unat d1 + unat d2 \<le> unat (sent_offset s)"
    using ok(2) Some s by (simp add: quic_acked_stream_data_offset_cb_def acked_offset_acked)
  then have lt: "unat (acked_offset s) + unat d1 + unat d2 < 2 ^ 64" using unat_lt64 [of "sent_offset s"] by simp
  then have "unat (d1 + d2) = unat d1 + unat d2" by (intro unat_plus64) simp
  with stream_acked_twice [OF lt] le2 Some s show ?thesis
    by (simp add: quic_acked_stream_data_offset_cb_def)
qed (simp add: quic_acked_stream_data_offset_cb_def)

text \<open>A run of acknowledgements is one acknowledgement of their sum.\<close>

lemma acks_sum:
  "client_wf w \<Longrightarrow> events_ok K w (acks sid ((off, d) # ds)) \<Longrightarrow>
   run_events K (acks sid ((off, d) # ds)) w = run_event K (Acked_stream_data_offset sid off (d + sum_list (map snd ds))) w"
proof (induction ds arbitrary: d)
  case (Cons p ds)
  obtain off2 d2 where p: "p = (off2, d2)" by (cases p)
  have ok: "event_ok w (Acked_stream_data_offset sid off d)"
    "event_ok (run_event K (Acked_stream_data_offset sid off d) w) (Acked_stream_data_offset sid off2 d2)"
    "events_ok K (run_event K (Acked_stream_data_offset sid off2 d2) (run_event K (Acked_stream_data_offset sid off d) w)) (acks sid ds)"
    using Cons.prems(2) by (simp_all add: acks_def p del: event_ok.simps run_event.simps)
  note two = acked_cb_twice [OF Cons.prems(1) ok(1,2), of off]
  have "events_ok K w (acks sid ((off, d + d2) # ds))"
    using ok(3) two by (simp add: acks_def del: event_ok.simps run_event.simps)
  from Cons.IH [OF Cons.prems(1) this] two show ?case
    by (simp add: acks_def p add.assoc del: event_ok.simps run_event.simps)
qed (simp add: acks_def)

section \<open>Deliveries\<close>

definition deliveries :: "uint64 \<Rightarrow> (uint32 \<times> uint64 \<times> bytes) list \<Rightarrow> ngtcp2_event list" where
  "deliveries sid = map (\<lambda>(flags, off, data). Recv_stream_data flags sid off data)"

lemma stream_recv_twice:
  "stream_recv K f2 b (stream_recv K f1 a s) = stream_recv K (f1 OR f2) (a @ b) s"
proof -
  have "(f1 OR f2) AND STREAM_DATA_FLAG_FIN K = (f1 AND STREAM_DATA_FLAG_FIN K) OR (f2 AND STREAM_DATA_FLAG_FIN K)"
    by (simp add: bit.conj_disj_distrib2)
  then have "(f1 OR f2) AND STREAM_DATA_FLAG_FIN K \<noteq> 0 \<longleftrightarrow>
      f1 AND STREAM_DATA_FLAG_FIN K \<noteq> 0 \<or> f2 AND STREAM_DATA_FLAG_FIN K \<noteq> 0"
    by (simp add: or_eq_0_iff)
  then show ?thesis by (cases s) (simp add: stream_recv_def Let_def)
qed

lemma recv_cb_twice:
  assumes wf: "client_wf w"
  shows "run_event K (Recv_stream_data f2 sid off2 b) (run_event K (Recv_stream_data f1 sid off1 a) w) =
    run_event K (Recv_stream_data (f1 OR f2) sid off (a @ b)) w"
proof (cases "quic_client_lookup_stream w sid")
  case (Some r)
  then obtain s where s: "heap w r = Some s" using lookup_live [OF wf] by blast
  have l: "quic_client_lookup_stream (w\<lparr>accept_queue := q\<rparr>) sid = Some r" for q
    using Some by (simp add: quic_client_lookup_stream_def)
  show ?thesis
    using Some s l by (simp add: quic_recv_stream_data_cb_def stream_recv_twice)
qed (simp add: quic_recv_stream_data_cb_def)

text \<open>A run of deliveries is one delivery of all their bytes, with FIN if one of them had it.\<close>

lemma deliveries_concat:
  "client_wf w \<Longrightarrow>
   run_events K (deliveries sid ((f, off, a) # ds)) w =
     run_event K (Recv_stream_data (fold (\<lambda>(g, _, _) h. h OR g) ds f) sid off (a @ concat (map (\<lambda>(_, _, b). b) ds))) w"
proof (induction ds arbitrary: f a)
  case (Cons p ds)
  obtain g off2 b where p: "p = (g, off2, b)" by (cases p)
  have "run_events K (deliveries sid ((f, off, a) # p # ds)) w = run_events K (deliveries sid ((f OR g, off, a @ b) # ds)) w"
    using recv_cb_twice [OF Cons.prems, of K g sid off2 b f off a off]
    by (simp add: deliveries_def p del: run_event.simps)
  with Cons show ?case by (simp add: p)
qed (simp add: deliveries_def)

lemma stream_recv_flags:
  "(f AND STREAM_DATA_FLAG_FIN K \<noteq> 0) = (g AND STREAM_DATA_FLAG_FIN K \<noteq> 0) \<Longrightarrow> stream_recv K f = stream_recv K g"
  by (intro ext) (simp add: stream_recv_def)

lemma recv_cb_flags:
  "(f AND STREAM_DATA_FLAG_FIN K \<noteq> 0) = (g AND STREAM_DATA_FLAG_FIN K \<noteq> 0) \<Longrightarrow>
   run_event K (Recv_stream_data f sid off a) w = run_event K (Recv_stream_data g sid off' a) w"
  by (drule stream_recv_flags) (simp add: quic_recv_stream_data_cb_def split: option.splits)

lemma fold_or_flag:
  "fold (\<lambda>(g, _, _) h. h OR g) ds f AND m \<noteq> 0 \<longleftrightarrow> f AND m \<noteq> 0 \<or> (\<exists>g \<in> fst ` set ds. g AND m \<noteq> (0 :: uint32))"
proof (induction ds arbitrary: f)
  case (Cons p ds)
  obtain g off b where p: "p = (g, off, b)" by (cases p)
  have "(f OR g) AND m = (f AND m) OR (g AND m)" by (simp add: bit.conj_disj_distrib2)
  with Cons.IH [of "f OR g"] show ?case by (auto simp: p or_eq_0_iff)
qed simp

section \<open>Properties\<close>

text \<open>
  C14. How ngtcp2 splits an acknowledged range does not matter. Any two non-empty sequences of
  admissible acknowledgements of a stream with the same total leave the same client: the same
  acknowledged offset, and the same chunks dropped.
\<close>

theorem ack_split_irrelevant:
  assumes "client_wf w" "es1 \<noteq> []" "es2 \<noteq> []"
    and "events_ok K w (acks sid es1)" "events_ok K w (acks sid es2)"
    and "sum_list (map snd es1) = sum_list (map snd es2)"
  shows "run_events K (acks sid es1) w = run_events K (acks sid es2) w"
proof -
  obtain off1 d1 ds1 off2 d2 ds2 where e: "es1 = (off1, d1) # ds1" "es2 = (off2, d2) # ds2"
    using assms(2,3) by (metis list.exhaust prod.exhaust)
  from acks_sum [of w K sid off1 d1 ds1] acks_sum [of w K sid off2 d2 ds2] assms show ?thesis
    by (simp add: e)
qed

text \<open>A client whose stream 0 has three chunks of two bytes, five of the six bytes framed.\<close>

definition acked_client :: "unit client" where
  "acked_client = sample_client\<lparr>heap := [0 \<mapsto> (quic_stream_new 0 True)\<lparr>pending_chunks := [[1, 2], [3, 4], [5, 6]], sent_offset := 5\<rparr>],
     next_ref := 1, streams := [(0, 0)]\<rparr>"

lemma acked_client_wf: "client_wf acked_client"
  by (auto simp: client_wf_def registry_wf_def queue_wf_def obj_wf_def stream_wf_def acked_client_def
      sample_client_def LL2NUM_def split: if_splits)

theorem ack_split_irrelevant_witness:
  "run_events sample_consts (acks 0 [(0, 1), (1, 2), (3, 1)]) acked_client =
     run_events sample_consts (acks 0 [(0, 4)]) acked_client \<and>
   heap (run_events sample_consts (acks 0 [(0, 4)]) acked_client) 0 =
     Some ((quic_stream_new 0 True)\<lparr>pending_chunks := [[5, 6]], sent_offset := 5, acked_offset := 4, pending_shifted := 4\<rparr>)"
proof -
  have "events_ok sample_consts acked_client (acks 0 [(0, 1), (1, 2), (3, 1)])"
    "events_ok sample_consts acked_client (acks 0 [(0, 4)])"
    by (simp_all add: acks_def acked_client_def sample_client_def quic_client_lookup_stream_def LL2NUM_def
        quic_acked_stream_data_offset_cb_def acked_offset_acked put_stream_def)
  from ack_split_irrelevant [OF acked_client_wf _ _ this] show ?thesis
    by (simp add: acks_def acked_client_def sample_client_def quic_client_lookup_stream_def LL2NUM_def
        quic_acked_stream_data_offset_cb_def put_stream_def stream_acked_def Let_def)
qed

text \<open>
  C15. How the transport fragments the data of a stream does not matter. Any two non-empty
  sequences of deliveries of the same bytes that agree on whether FIN arrives leave the same
  client: buffer, FIN and accept queue.
\<close>

theorem delivery_split_irrelevant:
  assumes "client_wf w" "ds1 \<noteq> []" "ds2 \<noteq> []"
    and "concat (map (\<lambda>(_, _, b). b) ds1) = concat (map (\<lambda>(_, _, b). b) ds2)"
    and "(\<exists>f \<in> fst ` set ds1. f AND STREAM_DATA_FLAG_FIN K \<noteq> 0) = (\<exists>f \<in> fst ` set ds2. f AND STREAM_DATA_FLAG_FIN K \<noteq> 0)"
  shows "run_events K (deliveries sid ds1) w = run_events K (deliveries sid ds2) w"
proof -
  obtain f1 off1 a1 es1 f2 off2 a2 es2 where e: "ds1 = (f1, off1, a1) # es1" "ds2 = (f2, off2, a2) # es2"
    using assms(2,3) by (metis list.exhaust prod_cases3)
  have "(fold (\<lambda>(g, _, _) h. h OR g) es1 f1 AND STREAM_DATA_FLAG_FIN K \<noteq> 0) =
      (fold (\<lambda>(g, _, _) h. h OR g) es2 f2 AND STREAM_DATA_FLAG_FIN K \<noteq> 0)"
    using assms(5) unfolding fold_or_flag e by simp
  from recv_cb_flags [OF this] show ?thesis
    using assms(4) unfolding e deliveries_concat [OF assms(1)] by simp
qed

theorem delivery_split_irrelevant_witness:
  "run_events sample_consts (deliveries 1 [(0, 2, [9]), (1, 3, []), (0, 3, [5, 6])]) sample_client2 =
     run_events sample_consts (deliveries 1 [(1, 2, [9, 5, 6])]) sample_client2 \<and>
   heap (run_events sample_consts (deliveries 1 [(1, 2, [9, 5, 6])]) sample_client2) 0 =
     Some (sample_stream\<lparr>recv_buffer := [7, 8, 9, 5, 6], fin_received := True\<rparr>)"
proof -
  have "run_events sample_consts (deliveries 1 [(0, 2, [9]), (1, 3, []), (0, 3, [5, 6])]) sample_client2 =
      run_events sample_consts (deliveries 1 [(1, 2, [9, 5, 6])]) sample_client2"
    by (rule delivery_split_irrelevant [OF sample_client2_wf]) (simp_all add: sample_consts_def)
  then show ?thesis
    by (simp add: deliveries_def sample_client2_def sample_stream_def quic_recv_stream_data_cb_def
        quic_client_lookup_stream_def LL2NUM_def put_stream_def stream_recv_def sample_consts_def)
qed

text \<open>
  C16. When the flow-control window has room for all of the data, the blocking \<open>write\<close> does not
  wait: it is \<open>write_nonblock\<close>, on every argument, every stream and every error.
\<close>

theorem write_is_write_nonblock:
  assumes "heap w r = Some s" "length (data_bytes args) < 2 ^ 64"
    and "length (data_bytes args) \<le> unat (quic_stream_window_left X (ext_st w) s)"
  shows "quic_stream_write_m X r args w = Some (stream_write_nonblock X r args w)"
proof (cases "quic_stream_fin_kwarg args")
  case (Inl e)
  with assms(1) show ?thesis
    by (simp add: quic_stream_write_m_def stream_write_nonblock_def on_stream_def quic_stream_write_nonblock_m_def)
next
  case (Inr p)
  then obtain data fin where k: "quic_stream_fin_kwarg args = Inr (data, fin)" by (cases p) auto
  show ?thesis
  proof (cases "\<exists>enc bs. data = VStr enc bs")
    case True
    then obtain enc bs where d: "data = VStr enc bs" by blast
    let ?win = "quic_stream_window_left X (ext_st w) s"
    have bs: "length bs < 2 ^ 64" "length bs \<le> unat ?win" using assms(2,3) by (simp_all add: data_bytes_def k d)
    then have open_win: "\<not> ?win < of_nat (length bs)" by (simp add: len_bound not_less)
    then have "write_wait X r (length bs) w = Some (Inr (), w)"
      using assms(1) by (subst write_wait.simps) simp
    moreover have "?win \<noteq> 0" if "bs \<noteq> []" using bs that by (auto simp: unat_eq_0)
    ultimately show ?thesis
      using assms(1) k d open_win
      by (auto simp: quic_stream_write_m_def stream_write_nonblock_def on_stream_def stream_enqueue_def
          quic_stream_write_nonblock_m_def Let_def not_less split: sum.splits)
  next
    case False
    then have "check_string data = Inl (Exn TypeError None)" by (cases data) simp_all
    with assms(1) k show ?thesis
      by (auto simp: quic_stream_write_m_def stream_write_nonblock_def on_stream_def stream_enqueue_def
          quic_stream_write_nonblock_m_def split: sum.splits)
  qed
qed

definition wide_ext :: "unit ext" where
  "wide_ext = sample_ext\<lparr>x_max_stream_data_left := (\<lambda>sid x. 10), x_max_data_left := (\<lambda>x. 100)\<rparr>"

theorem write_is_write_nonblock_witness:
  "quic_stream_write_m wide_ext 0 \<lparr>positional = [VStr UTF_8 [1, 2]], kwargs = None\<rparr> sample_client2 =
     Some (stream_write_nonblock wide_ext 0 \<lparr>positional = [VStr UTF_8 [1, 2]], kwargs = None\<rparr> sample_client2) \<and>
   fst (stream_write_nonblock wide_ext 0 \<lparr>positional = [VStr UTF_8 [1, 2]], kwargs = None\<rparr> sample_client2) = Inr 2"
proof -
  let ?a = "\<lparr>positional = [VStr UTF_8 [1, 2]], kwargs = None\<rparr>"
  have h: "heap sample_client2 0 = Some sample_stream" by (simp add: sample_client2_def)
  have k: "quic_stream_fin_kwarg ?a = Inr (VStr UTF_8 [1, 2], False)" by (simp add: quic_stream_fin_kwarg_def rb_scan_args_def)
  have b: "data_bytes ?a = [1, 2]" by (simp add: data_bytes_def k)
  have w: "quic_stream_window_left wide_ext x s = 10" for x s by (simp add: quic_stream_window_left_def wide_ext_def)
  have "quic_stream_write_m wide_ext 0 ?a sample_client2 = Some (stream_write_nonblock wide_ext 0 ?a sample_client2)"
    by (rule write_is_write_nonblock [OF h]) (simp_all add: b w)
  moreover have "fst (stream_write_nonblock wide_ext 0 ?a sample_client2) = Inr 2"
    by (simp add: stream_write_nonblock_def on_stream_def h quic_stream_write_nonblock_m_def k w)
      (simp add: sample_stream_def enqueue_VStr)
  ultimately show ?thesis by blast
qed

end
