(* ===== verification/Method_Tables.thy ===== *)
theory Method_Tables
  imports Io_Safety
begin

unbundle bit_operations_syntax

text \<open>
  The method tables the extension installs (\<open>Init_quic_connection_client\<close> and
  \<open>Init_quic_stream\<close>), how Ruby calls an entry, and the type signatures of \<^verbatim>\<open>sig/quic.rbs\<close>. The
  properties say what every method of the two tables can do: the value it returns has the type
  of its signature, and the exceptions it raises are the listed ones, which leave the client
  untouched unless ngtcp2 or the socket reported them. (A blocking write that has pumped while it
  waited and is then refused raises StreamClosed with the client as the pumps left it.)
\<close>

section \<open>Tables\<close>

datatype client_cfunc =
    CF_write_pkt | CF_read_pkt | CF_expiry | CF_handle_expiry | CF_handshake_completed_p
  | CF_in_closing_period_p | CF_in_draining_period_p | CF_open_bidi_stream | CF_open_uni_stream | CF_close_m

datatype stream_cfunc =
    SF_write_m | SF_write_nonblock_m | SF_close_write_m | SF_read_nonblock_m | SF_eof_p
  | SF_close_read_m | SF_close_m | SF_reset_m

definition Init_quic_connection_client :: "(string \<times> client_cfunc \<times> int) list" where
  "Init_quic_connection_client =
     [(''write_pkt'', CF_write_pkt, -1), (''read_pkt'', CF_read_pkt, -1), (''expiry'', CF_expiry, 0),
      (''handle_expiry'', CF_handle_expiry, 0), (''handshake_completed?'', CF_handshake_completed_p, 0),
      (''in_closing_period?'', CF_in_closing_period_p, 0), (''in_draining_period?'', CF_in_draining_period_p, 0),
      (''open_bidi_stream'', CF_open_bidi_stream, 0), (''open_uni_stream'', CF_open_uni_stream, 0),
      (''close'', CF_close_m, -1)]"

text \<open>The one singleton method, \<^verbatim>\<open>Client._open\<close>.\<close>

datatype client_singleton = CS_open

definition Init_quic_connection_client_singleton :: "(string \<times> client_singleton \<times> int) list" where
  "Init_quic_connection_client_singleton = [(''_open'', CS_open, -1)]"

definition Init_quic_stream :: "(string \<times> stream_cfunc \<times> int) list" where
  "Init_quic_stream =
     [(''write'', SF_write_m, -1), (''write_nonblock'', SF_write_nonblock_m, -1), (''close_write'', SF_close_write_m, 0),
      (''read_nonblock'', SF_read_nonblock_m, 1), (''eof?'', SF_eof_p, 0), (''close_read'', SF_close_read_m, 0),
      (''close'', SF_close_m, 0), (''reset'', SF_reset_m, -1)]"

section \<open>Calling an entry\<close>

text \<open>What a method returns: a value, or a reference to a stream object.\<close>

datatype outcome = Val rvalue | Stream_ref nat

text \<open>
  A function of arity \<open>-1\<close> receives \<^verbatim>\<open>argc\<close> and \<^verbatim>\<open>argv\<close> and checks them itself; for a fixed arity
  Ruby checks the number of arguments, keywords counting as one trailing Hash.
\<close>

definition rb_argv :: "call_args \<Rightarrow> rvalue list" where
  "rb_argv a = positional a @ (case kwargs a of None \<Rightarrow> [] | Some h \<Rightarrow> [VHash h])"

definition arity_ok :: "int \<Rightarrow> call_args \<Rightarrow> bool" where
  "arity_ok arity a \<longleftrightarrow> arity < 0 \<or> int (length (rb_argv a)) = arity"

abbreviation returns :: "('a \<Rightarrow> outcome) \<Rightarrow> exn + 'a \<Rightarrow> exn + outcome" where
  "returns f \<equiv> map_sum id f"

fun nil_or :: "('a \<Rightarrow> rvalue) \<Rightarrow> 'a option \<Rightarrow> rvalue" where
  "nil_or f None = VNil"
| "nil_or f (Some a) = f a"

text \<open>What the C functions make of their results: the values of their return statements.\<close>

definition write_pkt_value :: "bytes option \<Rightarrow> outcome" where
  "write_pkt_value p = Val (nil_or (VStr ASCII_8BIT) p)"

definition read_pkt_value :: "unit \<Rightarrow> outcome" where
  "read_pkt_value u = Val VNil"

definition expiry_value :: "int option \<Rightarrow> outcome" where
  "expiry_value t = Val (nil_or VInt t)"

definition handle_expiry_value :: "unit \<Rightarrow> outcome" where
  "handle_expiry_value u = Val VNil"

definition handshake_completed_value :: "bool \<Rightarrow> outcome" where
  "handshake_completed_value b = Val (VBool b)"

definition in_closing_period_value :: "bool \<Rightarrow> outcome" where
  "in_closing_period_value b = Val (VBool b)"

definition in_draining_period_value :: "bool \<Rightarrow> outcome" where
  "in_draining_period_value b = Val (VBool b)"

definition open_bidi_stream_value :: "nat \<Rightarrow> outcome" where
  "open_bidi_stream_value r = Stream_ref r"

definition open_uni_stream_value :: "nat \<Rightarrow> outcome" where
  "open_uni_stream_value r = Stream_ref r"

definition client_close_value :: "unit \<Rightarrow> outcome" where
  "client_close_value u = Val VNil"

text \<open>\<open>LONG2NUM(len)\<close> at the end of \<open>quic_stream_enqueue\<close>, which both writes return.\<close>

definition enqueue_value :: "int \<Rightarrow> outcome" where
  "enqueue_value n = Val (VInt n)"

definition close_write_value :: "unit \<Rightarrow> outcome" where
  "close_write_value u = Val VNil"

definition read_nonblock_value :: "bytes \<Rightarrow> outcome" where
  "read_nonblock_value bs = Val (VStr ASCII_8BIT bs)"

definition eof_value :: "bool \<Rightarrow> outcome" where
  "eof_value b = Val (VBool b)"

definition close_read_value :: "unit \<Rightarrow> outcome" where
  "close_read_value u = Val VNil"

definition stream_close_value :: "unit \<Rightarrow> outcome" where
  "stream_close_value u = Val VNil"

definition reset_value :: "unit \<Rightarrow> outcome" where
  "reset_value u = Val VNil"

lemmas client_value_defs = write_pkt_value_def read_pkt_value_def expiry_value_def handle_expiry_value_def
  handshake_completed_value_def in_closing_period_value_def in_draining_period_value_def
  open_bidi_stream_value_def open_uni_stream_value_def client_close_value_def

lemmas stream_value_defs = enqueue_value_def close_write_value_def read_nonblock_value_def eof_value_def
  close_read_value_def stream_close_value_def reset_value_def

text \<open>
  The call of the function an entry of the client's table names, on the lock bit of the packet and
  the client.
\<close>

fun call_client :: "'x ext \<Rightarrow> client_cfunc \<Rightarrow> call_args \<Rightarrow> bool \<times> 'x client \<Rightarrow> (exn + outcome) \<times> bool \<times> 'x client" where
  "call_client X CF_write_pkt a (lk, w) =
     (case quic_client_write_pkt X a w of (r, buf, w') \<Rightarrow> (returns write_pkt_value r, lk, w'))"
| "call_client X CF_read_pkt a st = (case quic_client_read_pkt X a st of (r, st') \<Rightarrow> (returns read_pkt_value r, st'))"
| "call_client X CF_expiry a (lk, w) = (Inr (expiry_value (quic_client_expiry X w)), lk, w)"
| "call_client X CF_handle_expiry a (lk, w) =
     (case quic_client_handle_expiry X w of (r, w') \<Rightarrow> (returns handle_expiry_value r, lk, w'))"
| "call_client X CF_handshake_completed_p a (lk, w) = (Inr (handshake_completed_value (quic_client_handshake_completed_p X w)), lk, w)"
| "call_client X CF_in_closing_period_p a (lk, w) = (Inr (in_closing_period_value (quic_client_in_closing_period_p X w)), lk, w)"
| "call_client X CF_in_draining_period_p a (lk, w) = (Inr (in_draining_period_value (quic_client_in_draining_period_p X w)), lk, w)"
| "call_client X CF_open_bidi_stream a (lk, w) =
     (case quic_client_open_bidi_stream X w of (r, w') \<Rightarrow> (returns open_bidi_stream_value r, lk, w'))"
| "call_client X CF_open_uni_stream a (lk, w) =
     (case quic_client_open_uni_stream X w of (r, w') \<Rightarrow> (returns open_uni_stream_value r, lk, w'))"
| "call_client X CF_close_m a (lk, w) = (case quic_client_close_m X a w of (r, w') \<Rightarrow> (returns client_close_value r, lk, w'))"

definition client_method :: "'x ext \<Rightarrow> client_cfunc \<times> int \<Rightarrow> call_args \<Rightarrow> bool \<times> 'x client \<Rightarrow> (exn + outcome) \<times> bool \<times> 'x client" where
  "client_method X entry a st =
     (if arity_ok (snd entry) a then call_client X (fst entry) a st else (rb_raise ArgumentError, st))"

text \<open>The call of the singleton method; it returns the client that \<open>_open\<close> creates.\<close>

fun call_client_singleton :: "'x ext \<Rightarrow> client_singleton \<Rightarrow> nat \<Rightarrow> call_args \<Rightarrow> 'x open_st \<Rightarrow> (exn + 'x client) \<times> 'x open_st" where
  "call_client_singleton X CS_open self a st = quic_client_open X self a st"

text \<open>The same for streams; \<open>None\<close> when the call does not return.\<close>

fun call_stream :: "'x ext \<Rightarrow> stream_cfunc \<Rightarrow> nat \<Rightarrow> call_args \<Rightarrow> 'x client \<Rightarrow> ((exn + outcome) \<times> 'x client) option" where
  "call_stream X SF_write_m r a w =
     map_option (\<lambda>(res, w'). (returns enqueue_value res, w')) (quic_stream_write_m X r a w)"
| "call_stream X SF_write_nonblock_m r a w =
     (case stream_write_nonblock X r a w of (res, w') \<Rightarrow> Some (returns enqueue_value res, w'))"
| "call_stream X SF_close_write_m r a w =
     (case stream_close_write r w of (res, w') \<Rightarrow> Some (returns close_write_value res, w'))"
| "call_stream X SF_read_nonblock_m r a w =
     (case stream_read_nonblock r (rb_argv a ! 0) w of (res, w') \<Rightarrow>
        Some (returns read_nonblock_value res, w'))"
| "call_stream X SF_eof_p r a w =
     Some (case heap w r of None \<Rightarrow> (rb_raise TypeError, w) | Some s \<Rightarrow> (Inr (eof_value (quic_stream_eof_p s)), w))"
| "call_stream X SF_close_read_m r a w =
     (case quic_stream_close_read_m X r w of (res, w') \<Rightarrow> Some (returns close_read_value res, w'))"
| "call_stream X SF_close_m r a w =
     (case quic_stream_close_m X r w of (res, w') \<Rightarrow> Some (returns stream_close_value res, w'))"
| "call_stream X SF_reset_m r a w =
     (case quic_stream_reset_m X r a w of (res, w') \<Rightarrow> Some (returns reset_value res, w'))"

definition stream_method :: "'x ext \<Rightarrow> stream_cfunc \<times> int \<Rightarrow> nat \<Rightarrow> call_args \<Rightarrow> 'x client \<Rightarrow> ((exn + outcome) \<times> 'x client) option" where
  "stream_method X entry r a w =
     (if arity_ok (snd entry) a then call_stream X (fst entry) r a w else Some (rb_raise ArgumentError, w))"

section \<open>Signatures\<close>

datatype rbs_type = T_nil | T_bool | T_Integer | T_String | T_Stream | T_optional rbs_type

text \<open>Required and optional positional parameters, keywords, and the type of the result.\<close>

record rbs_sig =
  req_params :: nat
  opt_params :: nat
  kw_params :: "string list"
  sig_result :: rbs_type

definition client_sigs :: "(string \<times> rbs_sig) list" where
  "client_sigs =
     [(''open_bidi_stream'', \<lparr>req_params = 0, opt_params = 0, kw_params = [], sig_result = T_Stream\<rparr>),
      (''open_uni_stream'', \<lparr>req_params = 0, opt_params = 0, kw_params = [], sig_result = T_Stream\<rparr>),
      (''write_pkt'', \<lparr>req_params = 0, opt_params = 1, kw_params = [], sig_result = T_optional T_String\<rparr>),
      (''read_pkt'', \<lparr>req_params = 1, opt_params = 0, kw_params = [''local_sockaddr'', ''remote_sockaddr''], sig_result = T_nil\<rparr>),
      (''expiry'', \<lparr>req_params = 0, opt_params = 0, kw_params = [], sig_result = T_optional T_Integer\<rparr>),
      (''handle_expiry'', \<lparr>req_params = 0, opt_params = 0, kw_params = [], sig_result = T_nil\<rparr>),
      (''handshake_completed?'', \<lparr>req_params = 0, opt_params = 0, kw_params = [], sig_result = T_bool\<rparr>),
      (''in_closing_period?'', \<lparr>req_params = 0, opt_params = 0, kw_params = [], sig_result = T_bool\<rparr>),
      (''in_draining_period?'', \<lparr>req_params = 0, opt_params = 0, kw_params = [], sig_result = T_bool\<rparr>),
      (''close'', \<lparr>req_params = 0, opt_params = 0, kw_params = [''error_code'', ''reason''], sig_result = T_nil\<rparr>)]"

definition stream_sigs :: "(string \<times> rbs_sig) list" where
  "stream_sigs =
     [(''read_nonblock'', \<lparr>req_params = 1, opt_params = 0, kw_params = [], sig_result = T_String\<rparr>),
      (''write'', \<lparr>req_params = 1, opt_params = 0, kw_params = [''fin''], sig_result = T_Integer\<rparr>),
      (''write_nonblock'', \<lparr>req_params = 1, opt_params = 0, kw_params = [''fin''], sig_result = T_Integer\<rparr>),
      (''eof?'', \<lparr>req_params = 0, opt_params = 0, kw_params = [], sig_result = T_bool\<rparr>),
      (''close_write'', \<lparr>req_params = 0, opt_params = 0, kw_params = [], sig_result = T_nil\<rparr>),
      (''close_read'', \<lparr>req_params = 0, opt_params = 0, kw_params = [], sig_result = T_nil\<rparr>),
      (''close'', \<lparr>req_params = 0, opt_params = 0, kw_params = [], sig_result = T_nil\<rparr>),
      (''reset'', \<lparr>req_params = 0, opt_params = 1, kw_params = [], sig_result = T_nil\<rparr>)]"

text \<open>The arity \<open>rb_define_method\<close> needs for a signature.\<close>

definition sig_arity :: "rbs_sig \<Rightarrow> int" where
  "sig_arity sg = (if opt_params sg = 0 \<and> kw_params sg = [] then int (req_params sg) else -1)"

text \<open>Values of a type; a stream must be an object of the client.\<close>

fun has_type :: "'x client \<Rightarrow> rbs_type \<Rightarrow> outcome \<Rightarrow> bool" where
  "has_type w T_nil v \<longleftrightarrow> v = Val VNil"
| "has_type w T_bool v \<longleftrightarrow> (case v of Val (VBool b) \<Rightarrow> True | _ \<Rightarrow> False)"
| "has_type w T_Integer v \<longleftrightarrow> (case v of Val (VInt i) \<Rightarrow> True | _ \<Rightarrow> False)"
| "has_type w T_String v \<longleftrightarrow> (case v of Val (VStr enc bs) \<Rightarrow> True | _ \<Rightarrow> False)"
| "has_type w T_Stream v \<longleftrightarrow> (case v of Stream_ref r \<Rightarrow> heap w r \<noteq> None | _ \<Rightarrow> False)"
| "has_type w (T_optional t) v \<longleftrightarrow> v = Val VNil \<or> has_type w t v"

text \<open>The type of what each C function returns.\<close>

fun client_type :: "client_cfunc \<Rightarrow> rbs_type" where
  "client_type CF_write_pkt = T_optional T_String"
| "client_type CF_expiry = T_optional T_Integer"
| "client_type CF_open_bidi_stream = T_Stream"
| "client_type CF_open_uni_stream = T_Stream"
| "client_type f = (if f \<in> {CF_handshake_completed_p, CF_in_closing_period_p, CF_in_draining_period_p} then T_bool else T_nil)"

fun stream_type :: "stream_cfunc \<Rightarrow> rbs_type" where
  "stream_type SF_read_nonblock_m = T_String"
| "stream_type SF_eof_p = T_bool"
| "stream_type f = (if f \<in> {SF_write_m, SF_write_nonblock_m} then T_Integer else T_nil)"

text \<open>The tables agree with the signatures, name by name.\<close>

lemma client_table_sigs:
  "list_all (\<lambda>(name, f, arity). map_option (\<lambda>sg. (sig_arity sg, sig_result sg)) (map_of client_sigs name) =
     Some (arity, client_type f)) Init_quic_connection_client"
  by code_simp

lemma stream_table_sigs:
  "list_all (\<lambda>(name, f, arity). map_option (\<lambda>sg. (sig_arity sg, sig_result sg)) (map_of stream_sigs name) =
     Some (arity, stream_type f)) Init_quic_stream"
  by code_simp

section \<open>Exceptions\<close>

definition ngtcp2_classes :: "quic_class list" where
  "ngtcp2_classes = [QProto, QDropConn, QRetry, QClosed, QCryptoError, QHandshakeTimeout, QFlowControl, QStreamClosed, QUnknown]"

text \<open>An exception that reports a result of ngtcp2 carries its code; one of the glue code does not.\<close>

definition ngtcp2_exn :: "exn \<Rightarrow> bool" where
  "ngtcp2_exn e \<longleftrightarrow> (\<exists>q \<in> set ngtcp2_classes. exn_class e = QuicError q) \<and> exn_code e \<noteq> None"

definition glue_exn :: "exn_class list \<Rightarrow> exn \<Rightarrow> bool" where
  "glue_exn cs e \<longleftrightarrow> exn_class e \<in> set cs \<and> exn_code e = None"

definition send_exn :: "'x ext \<Rightarrow> exn \<Rightarrow> bool" where
  "send_exn X e \<longleftrightarrow> (\<exists>so pkt x x'. x_sock_send X so pkt x = (Inl e, x'))"

text \<open>What the I/O loop can raise: the transport, the socket, the address lookup.\<close>

definition loop_exn :: "'x ext \<Rightarrow> exn \<Rightarrow> bool" where
  "loop_exn X e \<longleftrightarrow> e = Exn (QuicError QNotBound) None \<or> ngtcp2_exn e \<or> send_exn X e \<or>
     (\<exists>so t x x'. x_sock_select X so t x = (Inl e, x')) \<or>
     (\<exists>so len x x'. x_sock_recvfrom X so len x = (Inl e, x')) \<or>
     (\<exists>so x x'. x_sock_remote_address X so x = (Inl e, x')) \<or>
     (\<exists>fam host port x x'. x_addrinfo X fam host port x = (Inl e, x'))"

fun client_raises :: "client_cfunc \<Rightarrow> exn_class list" where
  "client_raises CF_write_pkt = [ArgumentError, TypeError]"
| "client_raises CF_read_pkt = [ArgumentError, TypeError, RuntimeError]"
| "client_raises CF_close_m = [ArgumentError, TypeError, RangeError, QuicError QNotBound]"
| "client_raises _ = [ArgumentError]"

fun client_asks_ngtcp2 :: "client_cfunc \<Rightarrow> bool" where
  "client_asks_ngtcp2 f = (f \<in> {CF_write_pkt, CF_read_pkt, CF_handle_expiry, CF_open_bidi_stream, CF_open_uni_stream, CF_close_m})"

fun stream_raises :: "stream_cfunc \<Rightarrow> exn_class list" where
  "stream_raises SF_write_m = [ArgumentError, TypeError, QuicError QStreamClosed]"
| "stream_raises SF_write_nonblock_m = [ArgumentError, TypeError, QuicError QWaitWritable, QuicError QStreamClosed]"
| "stream_raises SF_close_write_m = [ArgumentError, QuicError QStreamClosed]"
| "stream_raises SF_read_nonblock_m = [ArgumentError, TypeError, RangeError, EOFError, QuicError QWaitReadable]"
| "stream_raises SF_close_m = [ArgumentError, QuicError QStreamClosed]"
| "stream_raises SF_reset_m = [ArgumentError, TypeError, RangeError]"
| "stream_raises _ = [ArgumentError]"

fun stream_asks_ngtcp2 :: "stream_cfunc \<Rightarrow> bool" where
  "stream_asks_ngtcp2 f = (f \<in> {SF_close_read_m, SF_close_m, SF_reset_m})"

lemma if_mem: "x \<in> A \<Longrightarrow> y \<in> A \<Longrightarrow> (if b then x else y) \<in> A"
  by simp

lemma error_class_ngtcp2: "quic_error_class K rv \<in> set ngtcp2_classes"
  unfolding quic_error_class_def ngtcp2_classes_def by (intro if_mem) simp_all

lemma raise_ngtcp2: "quic_raise_ngtcp2_error K rv = Inl e \<Longrightarrow> ngtcp2_exn e"
  using error_class_ngtcp2 [of K rv] by (auto simp: quic_raise_ngtcp2_error_def ngtcp2_exn_def)

lemma raise_ngtcp2_Inr [simp]: "quic_raise_ngtcp2_error K rv \<noteq> Inr a"
  by (simp add: quic_raise_ngtcp2_error_def)

lemma scan_exn: "rb_scan_args l o' k a = Inl e \<Longrightarrow> e = Exn ArgumentError None"
  by (auto simp: rb_scan_args_def Let_def split: if_splits)

lemma check_string_exn: "check_string v = Inl e \<Longrightarrow> e = Exn TypeError None"
  by (cases v) auto

lemma require_binary_exn: "quic_require_binary v = Inl e \<Longrightarrow> e = Exn TypeError None \<or> e = Exn ArgumentError None"
  by (cases v) (auto simp: quic_require_binary_def split: if_splits)

lemma NUM2ULL_exn: "NUM2ULL v = Inl e \<Longrightarrow> e = Exn TypeError None \<or> e = Exn RangeError None"
  by (cases v) (auto split: if_splits)

lemma prepare_buffer_exn: "prepare_buffer K v = Inl e \<Longrightarrow> e = Exn TypeError None \<or> e = Exn ArgumentError None"
  by (cases v) (auto simp: prepare_buffer_def Let_def NIL_P_def split: if_splits)

lemma map_sum_Inl: "map_sum id f r = Inl e \<longleftrightarrow> r = Inl e"
  by (cases r) simp_all

lemma map_sum_Inr: "map_sum id f r = Inr b \<longleftrightarrow> (\<exists>a. r = Inr a \<and> b = f a)"
  by (cases r) auto

lemmas exn_lemmas = scan_exn check_string_exn require_binary_exn NUM2ULL_exn prepare_buffer_exn

lemma write_pkt_exn:
  assumes "quic_client_write_pkt X a w = (Inl e, buf, w')"
  shows "glue_exn [ArgumentError, TypeError] e \<and> w' = w \<or> ngtcp2_exn e"
proof (cases "bindE (rb_scan_args 0 1 False a) (\<lambda>(pos, opts). prepare_buffer (consts_of X) (pos ! 0))")
  case (Inl e')
  with assms have "e' = e" "w' = w" by (simp_all add: quic_client_write_pkt_def Let_def)
  with Inl show ?thesis by (auto simp: glue_exn_def res_iff dest: exn_lemmas)
next
  case (Inr b)
  with assms show ?thesis
    by (auto simp: quic_client_write_pkt_def Let_def dest: raise_ngtcp2 split: prod.splits if_splits)
qed

lemma read_pkt_args_exn: "read_pkt_args a = Inl e \<Longrightarrow> glue_exn [ArgumentError, TypeError, RuntimeError] e"
proof (cases "rb_scan_args 1 0 True a")
  case (Inr p)
  then obtain pos opts where "rb_scan_args 1 0 True a = Inr (pos, opts)" by (cases p) auto
  then show "read_pkt_args a = Inl e \<Longrightarrow> ?thesis"
    by (cases opts) (auto simp: glue_exn_def res_iff read_pkt_args_def Let_def dest: exn_lemmas split: if_splits)
qed (auto simp: glue_exn_def read_pkt_args_def dest: scan_exn)

lemma read_pkt_exn:
  assumes "quic_client_read_pkt X a st = (Inl e, st')"
  shows "glue_exn [ArgumentError, TypeError, RuntimeError] e \<and> st' = st \<or> ngtcp2_exn e"
proof (cases "read_pkt_args a")
  case (Inl e')
  with assms have "e' = e" "st' = st" by (simp_all add: quic_client_read_pkt_def)
  with Inl read_pkt_args_exn show ?thesis by blast
next
  case (Inr p)
  with assms show ?thesis
    by (auto simp: quic_client_read_pkt_def rb_ensure_def quic_read_pkt_body_def glue_exn_def Let_def
        dest: raise_ngtcp2 split: prod.splits if_splits)
qed

lemma handle_expiry_exn: "quic_client_handle_expiry X w = (Inl e, w') \<Longrightarrow> ngtcp2_exn e"
  by (auto simp: quic_client_handle_expiry_def dest: raise_ngtcp2 split: prod.splits if_splits)

lemma open_stream_exn: "open_stream X call w = (Inl e, w') \<Longrightarrow> ngtcp2_exn e"
  by (auto simp: open_stream_def Let_def dest: raise_ngtcp2 split: prod.splits if_splits)

lemma open_stream_live: "open_stream X call w = (Inr r, w') \<Longrightarrow> heap w' r \<noteq> None"
  by (auto simp: open_stream_def register_stream_def Let_def split: prod.splits if_splits)

lemma close_args_exn: "close_args a = Inl e \<Longrightarrow> glue_exn [ArgumentError, TypeError, RangeError, QuicError QNotBound] e"
proof (cases "rb_scan_args 0 0 True a")
  case (Inr p)
  then obtain pos opts where "rb_scan_args 0 0 True a = Inr (pos, opts)" by (cases p) auto
  then show "close_args a = Inl e \<Longrightarrow> ?thesis"
    by (cases opts) (auto simp: glue_exn_def res_iff close_args_def Let_def dest: exn_lemmas split: if_splits)
qed (auto simp: glue_exn_def close_args_def dest: scan_exn)

lemma close_exn:
  assumes "quic_client_close_m X a w = (Inl e, w')"
  shows "glue_exn [ArgumentError, TypeError, RangeError, QuicError QNotBound] e \<and> w' = w \<or> ngtcp2_exn e \<or> send_exn X e"
proof (cases "close_args a")
  case (Inl e')
  with assms have "e' = e" "w' = w" by (simp_all add: quic_client_close_m_def)
  with Inl close_args_exn show ?thesis by blast
next
  case (Inr p)
  with assms show ?thesis
    by (auto simp: quic_client_close_m_def glue_exn_def send_exn_def Let_def
        dest: raise_ngtcp2 split: prod.splits if_splits option.splits sum.splits)
qed

lemma client_call_exn:
  assumes "call_client X f a (lk, w) = (Inl e, st')"
  shows "glue_exn (client_raises f) e \<and> st' = (lk, w) \<or> client_asks_ngtcp2 f \<and> ngtcp2_exn e \<or> f = CF_close_m \<and> send_exn X e"
  using assms
  by (cases f)
    (auto simp: quic_client_open_bidi_stream_def quic_client_open_uni_stream_def map_sum_Inl
      dest: write_pkt_exn read_pkt_exn handle_expiry_exn open_stream_exn close_exn split: prod.splits)

section \<open>Exceptions of the stream methods\<close>

lemma on_stream_exn:
  "on_stream r f w = (Inl e, w') \<Longrightarrow> heap w r = Some s \<Longrightarrow> f s = Inl e \<and> w' = w"
  by (auto simp: on_stream_def split: sum.splits)

lemma enqueue_exn: "quic_stream_enqueue data fin s = Inl e \<Longrightarrow> glue_exn [TypeError, QuicError QStreamClosed] e"
  by (auto simp: enqueue_Inl_iff glue_exn_def)

lemma fin_kwarg_exn: "quic_stream_fin_kwarg a = Inl e \<Longrightarrow> glue_exn [ArgumentError] e"
  by (auto simp: quic_stream_fin_kwarg_def res_iff glue_exn_def dest: scan_exn)

lemma glue_exn_mono: "glue_exn cs e \<Longrightarrow> set cs \<subseteq> set ds \<Longrightarrow> glue_exn ds e"
  by (auto simp: glue_exn_def)

lemma write_nonblock_exn:
  assumes "quic_stream_write_nonblock_m X x a s = Inl e"
  shows "glue_exn (stream_raises SF_write_nonblock_m) e"
proof (cases "quic_stream_fin_kwarg a")
  case (Inl e')
  with assms fin_kwarg_exn show ?thesis by (fastforce simp: quic_stream_write_nonblock_m_def glue_exn_def)
next
  case (Inr p)
  then obtain data fin where k: "quic_stream_fin_kwarg a = Inr (data, fin)" by (cases p) auto
  show ?thesis
  proof (cases "check_string data")
    case (Inl e')
    with assms k show ?thesis
      by (auto simp: quic_stream_write_nonblock_m_def glue_exn_def dest: enqueue_exn check_string_exn split: if_splits)
  next
    case (Inr b)
    with assms k show ?thesis
      by (cases b) (auto simp: quic_stream_write_nonblock_m_def glue_exn_def Let_def dest!: enqueue_exn split: if_splits)
  qed
qed

lemma close_write_exn:
  "stream_close_write r w = (Inl e, w') \<Longrightarrow> heap w r = Some s \<Longrightarrow> e = Exn (QuicError QStreamClosed) None \<and> w' = w"
  by (auto simp: stream_close_write_def quic_stream_close_write_m_def res_iff enqueue_Inl_iff glue_exn_def
      dest!: on_stream_exn split: if_splits)

lemma read_nonblock_exn:
  "quic_stream_read_nonblock_m v s = Inl e \<Longrightarrow> glue_exn (stream_raises SF_read_nonblock_m) e"
  by (cases v) (auto simp: quic_stream_read_nonblock_m_def glue_exn_def Let_def split: if_splits)

lemma close_read_exn:
  "quic_stream_close_read_m X r w = (Inl e, w') \<Longrightarrow> heap w r = Some s \<Longrightarrow> has_client s \<Longrightarrow> ngtcp2_exn e"
  by (auto simp: quic_stream_close_read_m_def dest: raise_ngtcp2 split: prod.splits if_splits)

lemma stream_close_exn:
  assumes "client_wf w" "heap w r = Some s" "quic_stream_close_m X r w = (Inl e, w')"
  shows "glue_exn (stream_raises SF_close_m) e \<and> w' = w \<or> ngtcp2_exn e"
proof (cases "stream_close_write r w")
  case (Pair res w1)
  show ?thesis
  proof (cases res)
    case (Inl e')
    with assms(3) Pair have "e' = e" "w' = w1" by (simp_all add: quic_stream_close_m_def bindW_def)
    with Pair Inl close_write_exn [OF _ assms(2)] show ?thesis by (auto simp: glue_exn_def)
  next
    case (Inr u)
    with assms(3) Pair have c: "quic_stream_close_read_m X r w1 = (Inl e, w')"
      by (simp add: quic_stream_close_m_def bindW_def)
    have "advances w w1" using advances_close_write [OF assms(1), of r] Pair by simp
    then obtain s1 where s1: "heap w1 r = Some s1" "client_wf w1"
      using assms(2) unfolding advances_def client_le_def by blast
    then have "has_client s1" using client_wf_obj by (auto simp: obj_wf_def)
    with close_read_exn [OF c s1(1)] show ?thesis by simp
  qed
qed

lemma reset_args_exn: "reset_args a = Inl e \<Longrightarrow> glue_exn (stream_raises SF_reset_m) e"
  by (auto simp: reset_args_def res_iff glue_exn_def dest: exn_lemmas split: if_splits)

lemma reset_exn:
  assumes "quic_stream_reset_m X r a w = (Inl e, w')" "heap w r = Some s"
  shows "glue_exn (stream_raises SF_reset_m) e \<and> w' = w \<or> ngtcp2_exn e"
proof (cases "reset_args a")
  case (Inl e')
  with assms have "e' = e" "w' = w" by (simp_all add: quic_stream_reset_m_def)
  with Inl reset_args_exn show ?thesis by blast
next
  case (Inr c)
  with assms show ?thesis
    by (auto simp: quic_stream_reset_m_def Let_def dest: raise_ngtcp2 split: prod.splits if_splits)
qed

subsection \<open>The waiting write\<close>

lemma write_pkt_fresh_exn:
  "quic_client_write_pkt X \<lparr>positional = [], kwargs = None\<rparr> w = (Inl e, buf, w') \<Longrightarrow> ngtcp2_exn e"
  by (auto simp: quic_client_write_pkt_def rb_scan_args_def prepare_buffer_def NIL_P_def Let_def
      dest: raise_ngtcp2 split: prod.splits if_splits)

lemma flush_exn: "pump_flush X so w = Some (Inl e, w') \<Longrightarrow> loop_exn X e"
proof -
  assume l: "pump_flush X so w = Some (Inl e, w')"
  have "X = X \<longrightarrow> (\<forall>e'. fst (Inl e :: exn + unit, w') = Inl e' \<longrightarrow> loop_exn X e')"
  proof (rule pump_flush.raw_induct [of "\<lambda>X' so w y. X' = X \<longrightarrow> (\<forall>e'. fst y = Inl e' \<longrightarrow> loop_exn X e')", OF _ l], rule impI, goal_cases)
    case (1 pf X' so w y)
    note ih = 1(1) and body = 1(2) and X = 1(3)
    obtain res buf w1 where wp: "quic_client_write_pkt X \<lparr>positional = [], kwargs = None\<rparr> w = (res, buf, w1)"
      by (metis prod.collapse)
    show "\<forall>e'. fst y = Inl e' \<longrightarrow> loop_exn X e'"
    proof (cases "\<exists>pkt. res = Inr (Some pkt)")
      case True
      then obtain pkt where p: "res = Inr (Some pkt)" by blast
      obtain sent x' where s: "x_sock_send X so pkt (ext_st w1) = (sent, x')" by (cases "x_sock_send X so pkt (ext_st w1)")
      then have "sent = Inl e' \<Longrightarrow> loop_exn X e'" for e' by (auto simp: loop_exn_def send_exn_def)
      with body X wp p s ih [of X so "w1\<lparr>ext_st := x'\<rparr>" y] show ?thesis
        by (cases sent) auto
    next
      case False
      with body X wp write_pkt_fresh_exn [of X w] show ?thesis
        by (auto simp: loop_exn_def split: sum.splits option.splits)
    qed
  qed
  then show ?thesis by simp
qed

lemma pump_read_exn: "pump_read_pkt X data lo re w = (Inl e, w') \<Longrightarrow> ngtcp2_exn e"
  by (auto simp: pump_read_pkt_def quic_client_read_pkt_def read_pkt_args_def rb_scan_args_def kw_aref_def NIL_P_def
      quic_require_binary_def rb_ensure_def quic_read_pkt_body_def Let_def dest: raise_ngtcp2 split: prod.splits if_splits)

lemma wait_exn: "pump_wait X so t w = (Inl e, w') \<Longrightarrow> loop_exn X e"
proof -
  have sel: "pump_select X so t w = (Inl e, v) \<Longrightarrow> loop_exn X e" for w v
    by (auto simp: pump_select_def loop_exn_def split: prod.splits)
  have rcv: "pump_recvfrom X so w = (Inl e, v) \<Longrightarrow> loop_exn X e" for w v
    by (auto simp: pump_recvfrom_def loop_exn_def split: prod.splits)
  have lsa: "pump_local_sockaddr X w = (Inl e, v) \<Longrightarrow> loop_exn X e" for w v
    by (auto simp: pump_local_sockaddr_def loop_exn_def split: prod.splits option.splits sum.splits)
  have rsa: "pump_remote_sockaddr X so w = (Inl e, v) \<Longrightarrow> loop_exn X e" for w v
    by (auto simp: pump_remote_sockaddr_def loop_exn_def split: prod.splits option.splits sum.splits)
  have io: "ngtcp2_exn e \<Longrightarrow> loop_exn X e" by (simp add: loop_exn_def)
  assume "pump_wait X so t w = (Inl e, w')"
  then show ?thesis
    by (auto simp: pump_wait_def res_iff split: if_splits
        dest: sel rcv lsa rsa io [OF pump_read_exn] io [OF handle_expiry_exn])
qed

lemma once_exn: "pump_once X t w = Some (Inl e, w') \<Longrightarrow> loop_exn X e"
  by (auto simp: pump_once_def loop_exn_def [of X "Exn (QuicError QNotBound) None"] dest: flush_exn wait_exn
      split: option.splits sum.splits)

lemma write_wait_exn: "write_wait X r needed w = Some (Inl e, w') \<Longrightarrow> loop_exn X e"
proof -
  assume "write_wait X r needed w = Some (Inl e, w')"
  then have "\<forall>e'. fst (Inl e :: exn + unit, w') = Inl e' \<longrightarrow> loop_exn X e'"
    by (rule write_wait_least [where P = "\<lambda>w y. \<forall>e'. fst y = Inl e' \<longrightarrow> loop_exn X e'"]) (auto dest: once_exn)
  then show ?thesis by simp
qed

text \<open>
  The exceptions of the waiting write: its own ones come before it starts to wait, except for
  StreamClosed, which \<open>quic_stream_enqueue\<close> can raise in the state the wait has reached; the write
  itself changes nothing then.
\<close>

definition refused_after_wait :: "'x ext \<Rightarrow> nat \<Rightarrow> 'x client \<Rightarrow> exn \<Rightarrow> 'x client \<Rightarrow> bool" where
  "refused_after_wait X r w e w' \<longleftrightarrow> e = Exn (QuicError QStreamClosed) None \<and>
     (\<exists>n. waits (window_open X r n) (pump_once X None) w w')"

lemma enqueue_VStr_exn:
  "stream_enqueue r (VStr enc bs) fin w = (Inl e, w') \<Longrightarrow> heap w r \<noteq> None \<Longrightarrow>
   e = Exn (QuicError QStreamClosed) None \<and> w' = w"
  by (auto simp: stream_enqueue_def on_stream_def enqueue_VStr split: if_splits)

lemma write_exn:
  assumes out: "quic_stream_write_m X r a w = Some (Inl e, w')" and wf: "client_wf w" and h: "heap w r = Some s"
  shows "glue_exn (stream_raises SF_write_m) e \<and> w' = w \<or> refused_after_wait X r w e w' \<or> loop_exn X e"
proof (cases "quic_stream_fin_kwarg a")
  case (Inl e')
  with out fin_kwarg_exn [OF Inl] show ?thesis by (auto simp: quic_stream_write_m_def glue_exn_def)
next
  case (Inr p)
  then obtain data fin where k: "quic_stream_fin_kwarg a = Inr (data, fin)" by (cases p) auto
  have hc: "has_client s" using client_wf_obj [OF wf h] by (simp add: obj_wf_def)
  show ?thesis
  proof (cases "check_string data")
    case (Inl e')
    with out k h hc show ?thesis by (auto simp: quic_stream_write_m_def glue_exn_def dest: check_string_exn)
  next
    case (Inr b)
    then obtain enc bs where d: "data = VStr enc bs" by (cases data) auto
    show ?thesis
    proof (cases "bs = []")
      case True
      with out k h hc d have "stream_enqueue r (VStr enc bs) fin w = (Inl e, w')" by (simp add: quic_stream_write_m_def)
      from enqueue_VStr_exn [OF this] h show ?thesis by (simp add: glue_exn_def)
    next
      case False
      obtain res w1 where l: "write_wait X r (length bs) w = Some (res, w1)"
        using out k h hc d False by (auto simp: quic_stream_write_m_def split: option.splits)
      show ?thesis
      proof (cases res)
        case (Inl e')
        with out k h hc d False l have "e' = e" by (simp add: quic_stream_write_m_def)
        with l Inl write_wait_exn show ?thesis by blast
      next
        case (Inr u)
        then have e: "stream_enqueue r (VStr enc bs) fin w1 = (Inl e, w')"
          using out k h hc d False l by (simp add: quic_stream_write_m_def)
        have "heap w1 r \<noteq> None"
          using kb.write_wait_rel [OF l] h client_wf_allocated [OF wf h] by (rule keeps_bytesD) simp
        with enqueue_VStr_exn [OF e] l Inr show ?thesis by (auto simp: refused_after_wait_def ww.loop_waits)
      qed
    qed
  qed
qed

section \<open>Properties\<close>

lemma client_call_type:
  assumes "call_client X f a (lk, w) = (Inr v, st')"
  shows "has_type (snd st') (client_type f) v"
proof (cases f)
  case CF_write_pkt
  obtain r buf w1 where "quic_client_write_pkt X a w = (r, buf, w1)" by (metis prod.collapse)
  with assms CF_write_pkt obtain p where "v = Val (nil_or (VStr ASCII_8BIT) p)" by (auto simp: map_sum_Inr client_value_defs)
  with CF_write_pkt show ?thesis by (cases p) simp_all
next
  case CF_expiry
  with assms show ?thesis by (cases "quic_client_expiry X w") (auto simp: client_value_defs)
next
  case CF_open_bidi_stream
  with assms show ?thesis
    by (auto simp: map_sum_Inr client_value_defs quic_client_open_bidi_stream_def split: prod.splits dest: open_stream_live)
next
  case CF_open_uni_stream
  with assms show ?thesis
    by (auto simp: map_sum_Inr client_value_defs quic_client_open_uni_stream_def split: prod.splits dest: open_stream_live)
qed (use assms in \<open>auto simp: map_sum_Inr client_value_defs split: prod.splits\<close>)

lemma stream_call_type: "call_stream X f r a w = Some (Inr v, w') \<Longrightarrow> has_type w' (stream_type f) v"
  by (cases f) (auto simp: map_sum_Inr stream_value_defs split: prod.splits option.splits sum.splits)

lemma client_sig:
  assumes "(name, f, arity) \<in> set Init_quic_connection_client"
  obtains sg where "map_of client_sigs name = Some sg" "sig_arity sg = arity" "sig_result sg = client_type f"
  using client_table_sigs assms by (fastforce simp: list_all_iff)

lemma stream_sig:
  assumes "(name, f, arity) \<in> set Init_quic_stream"
  obtains sg where "map_of stream_sigs name = Some sg" "sig_arity sg = arity" "sig_result sg = stream_type f"
  using stream_table_sigs assms by (fastforce simp: list_all_iff)

text \<open>
  C17. Every method of the table \<open>Init_quic_connection_client\<close> respects its signature in
  \<^verbatim>\<open>sig/quic.rbs\<close>. Its arity is the one the signature needs; a value it returns has the declared
  type (a stream it returns is an object of the client it leaves behind); an exception of its own
  is one of those listed for it and leaves client and packet as they were; any other
  exception is a \<open>Quic::Error\<close> with the code of ngtcp2 or, for \<open>close\<close> only, what the socket raised.
\<close>

theorem client_methods_typed:
  assumes "(name, f, arity) \<in> set Init_quic_connection_client"
    and "client_method X (f, arity) a (lk, w) = (res, st')"
  shows "case res of
      Inr v \<Rightarrow> \<exists>sg. map_of client_sigs name = Some sg \<and> sig_arity sg = arity \<and> has_type (snd st') (sig_result sg) v
    | Inl e \<Rightarrow> glue_exn (client_raises f) e \<and> st' = (lk, w) \<or> client_asks_ngtcp2 f \<and> ngtcp2_exn e \<or>
        f = CF_close_m \<and> send_exn X e"
proof (cases "arity_ok arity a")
  case True
  with assms(2) have c: "call_client X f a (lk, w) = (res, st')" by (simp add: client_method_def)
  show ?thesis
  proof (cases res)
    case (Inl e)
    with client_call_exn [of X f a lk w e st'] c show ?thesis by simp
  next
    case (Inr v)
    obtain sg where "map_of client_sigs name = Some sg" "sig_arity sg = arity" "sig_result sg = client_type f"
      using client_sig [OF assms(1)] by blast
    with client_call_type [of X f a lk w v st'] c Inr show ?thesis by simp
  qed
next
  case False
  then have "res = rb_raise ArgumentError \<and> st' = (lk, w)" using assms(2) by (simp add: client_method_def)
  moreover have "ArgumentError \<in> set (client_raises f)" by (cases f) simp_all
  ultimately show ?thesis by (simp add: glue_exn_def)
qed

theorem client_methods_typed_witness:
  "client_method sample_ext2 (CF_read_pkt, -1) sample_read_args (False, sample_client) = (Inr (Val VNil), False, sample_client2) \<and>
   (\<exists>sg. map_of client_sigs ''read_pkt'' = Some sg \<and> has_type sample_client2 (sig_result sg) (Val VNil))"
proof -
  have m: "client_method sample_ext2 (CF_read_pkt, -1) sample_read_args (False, sample_client) = (Inr (Val VNil), False, sample_client2)"
    by (simp add: client_method_def arity_ok_def sample_read_pkt client_value_defs)
  have "(''read_pkt'', CF_read_pkt, -1) \<in> set Init_quic_connection_client" by (simp add: Init_quic_connection_client_def)
  from client_methods_typed [OF this m] m show ?thesis by auto
qed

text \<open>
  C18. The methods of the table \<open>Init_quic_stream\<close>, on an object of a well-formed client, for every
  call that returns or raises: arity, type of the result and exceptions as for the client. An
  exception of its own leaves the client as it was, with one exception: when the blocking \<open>write\<close>
  has waited for the window and the stream turns out to be finished, it raises StreamClosed with
  the client as the wait left it, so its pumps have happened. Only \<open>write\<close> can raise what the I/O
  loop raises.
\<close>

theorem stream_methods_typed:
  assumes "(name, f, arity) \<in> set Init_quic_stream" "client_wf w" "heap w r \<noteq> None"
    and "stream_method X (f, arity) r a w = Some (res, w')"
  shows "case res of
      Inr v \<Rightarrow> \<exists>sg. map_of stream_sigs name = Some sg \<and> sig_arity sg = arity \<and> has_type w' (sig_result sg) v
    | Inl e \<Rightarrow> glue_exn (stream_raises f) e \<and> w' = w \<or> f = SF_write_m \<and> refused_after_wait X r w e w' \<or>
        stream_asks_ngtcp2 f \<and> ngtcp2_exn e \<or> f = SF_write_m \<and> loop_exn X e"
proof (cases "arity_ok arity a")
  case True
  with assms(4) have c: "call_stream X f r a w = Some (res, w')" by (simp add: stream_method_def)
  obtain s where s: "heap w r = Some s" using assms(3) by blast
  then have hc: "has_client s" using client_wf_obj [OF assms(2)] by (auto simp: obj_wf_def)
  show ?thesis
  proof (cases res)
    case (Inl e)
    then have "glue_exn (stream_raises f) e \<and> w' = w \<or> f = SF_write_m \<and> refused_after_wait X r w e w' \<or>
        stream_asks_ngtcp2 f \<and> ngtcp2_exn e \<or> f = SF_write_m \<and> loop_exn X e"
      using c s
      by (cases f)
        (auto simp: map_sum_Inl stream_write_nonblock_def stream_read_nonblock_def simp del: stream_raises.simps
          dest: write_exn [OF _ assms(2) s] on_stream_exn [OF _ s] write_nonblock_exn
            close_read_exn [OF _ s hc] stream_close_exn [OF assms(2) s] reset_exn [OF _ s]
            read_nonblock_exn dest!: close_write_exn [OF _ s] split: prod.splits,
         simp_all add: glue_exn_def)
    with Inl show ?thesis by simp
  next
    case (Inr v)
    obtain sg where "map_of stream_sigs name = Some sg" "sig_arity sg = arity" "sig_result sg = stream_type f"
      using stream_sig [OF assms(1)] by blast
    with stream_call_type [of X f r a w v w'] c Inr show ?thesis by simp
  qed
next
  case False
  then have "res = rb_raise ArgumentError \<and> w' = w" using assms(4) by (simp add: stream_method_def)
  moreover have "ArgumentError \<in> set (stream_raises f)" by (cases f) simp_all
  ultimately show ?thesis by (simp add: glue_exn_def)
qed

theorem stream_methods_typed_witness:
  "stream_method sample_ext2 (SF_read_nonblock_m, 1) 0 \<lparr>positional = [VInt (-1)], kwargs = None\<rparr> sample_client2 =
     Some (rb_raise ArgumentError, sample_client2) \<and>
   glue_exn (stream_raises SF_read_nonblock_m) (Exn ArgumentError None)"
proof -
  have m: "stream_method sample_ext2 (SF_read_nonblock_m, 1) 0 \<lparr>positional = [VInt (-1)], kwargs = None\<rparr> sample_client2 =
     Some (rb_raise ArgumentError, sample_client2)"
    by (simp add: stream_method_def arity_ok_def rb_argv_def stream_read_nonblock_def on_stream_def sample_client2_def
        quic_stream_read_nonblock_m_def)
  have "(''read_nonblock'', SF_read_nonblock_m, 1) \<in> set Init_quic_stream" by (simp add: Init_quic_stream_def)
  moreover have "heap sample_client2 0 \<noteq> None" by (simp add: sample_client2_def)
  ultimately show ?thesis using stream_methods_typed [OF _ sample_client2_wf _ m] m by (auto simp: ngtcp2_exn_def)
qed

end
