(* ===== verification/Client_Registry.thy ===== *)
theory Client_Registry
  imports Client_Properties
begin

unbundle bit_operations_syntax

text \<open>
  A stream stays in the registry until ngtcp2 closes it. Only the close callback deletes an entry,
  and only opening a stream under an id that is in use could replace one, which ngtcp2 never does:
  stream ids are not reused.
\<close>

section \<open>Steps that keep the entries of open streams\<close>

definition stays :: "'x client \<Rightarrow> 'x client \<Rightarrow> bool" where
  "stays w w' \<longleftrightarrow> advances w w' \<and> (\<forall>sid r. quic_client_lookup_stream w sid = Some r \<longrightarrow>
     quic_client_lookup_stream w' sid = Some r \<or> (\<exists>s. heap w' r = Some s \<and> closed s))"

lemma stays_refl: "client_wf w \<Longrightarrow> stays w w"
  by (simp add: stays_def advances_refl)

lemma stays_trans: "stays u v \<Longrightarrow> stays v w \<Longrightarrow> stays u w"
proof -
  assume uv: "stays u v" and vw: "stays v w"
  have a: "advances u w" using uv vw advances_trans by (auto simp: stays_def)
  have "\<exists>s'. heap w r = Some s' \<and> closed s'" if "heap v r = Some s" "closed s" for r s
    using vw that unfolding stays_def advances_def client_le_def stream_le_def by blast
  with uv vw a show "stays u w" unfolding stays_def by blast
qed

lemma stays_same: "advances w w' \<Longrightarrow> streams w' = streams w \<Longrightarrow> stays w w'"
  by (simp add: stays_def quic_client_lookup_stream_def)

lemma stays_ext: "stays (w\<lparr>ext_st := x\<rparr>) w' \<longleftrightarrow> stays w w'" "stays w (w'\<lparr>ext_st := x\<rparr>) \<longleftrightarrow> stays w w'"
  by (simp_all add: stays_def advances_def quic_client_lookup_stream_def)

lemma stays_event:
  assumes wf: "client_wf w" and ok: "event_ok w e"
  shows "stays w (run_event K e w)"
proof -
  have a: "advances w (run_event K e w)"
    using client_wf_run_event [OF wf ok] client_le_run_event [OF wf] by (simp add: advances_def)
  show ?thesis
  proof (cases e)
    case (Stream_open sid)
    have "hash_aref (streams (run_event K e w)) k = Some r" if "hash_aref (streams w) k = Some r" for k r
      using that by (auto simp: Stream_open quic_stream_open_cb_def register_stream_def Let_def hash.aref_aset)
    with a show ?thesis by (simp add: stays_def quic_client_lookup_stream_def)
  next
    case (Stream_close flags sid code)
    have d: "distinct (map fst (streams w))" using wf by (simp add: client_wf_def registry_wf_def)
    have "hash_aref (streams (run_event K e w)) k = Some r \<or> (\<exists>s. heap (run_event K e w) r = Some s \<and> closed s)"
      if "hash_aref (streams w) k = Some r" for k r
      using that d
      by (auto simp: Stream_close quic_stream_close_cb_def hash.aref_del put_stream_def split: option.splits)
    with a show ?thesis by (simp add: stays_def quic_client_lookup_stream_def)
  qed (use a in \<open>auto intro!: stays_same simp: quic_recv_stream_data_cb_def quic_acked_stream_data_offset_cb_def
        quic_stream_reset_cb_def put_stream_def split: option.splits\<close>)
qed

lemma stays_events: "client_wf w \<Longrightarrow> events_ok K w es \<Longrightarrow> stays w (run_events K es w)"
proof (induction K es w rule: run_events.induct)
  case (2 K e es w)
  then show ?case using stays_event [of w e K] by (auto simp: client_wf_run_event intro: stays_trans)
qed (simp add: stays_refl)

text \<open>After the callbacks a method may update objects, but neither the registry nor \<open>closed\<close>.\<close>

definition same_registry :: "'x client \<Rightarrow> 'x client \<Rightarrow> bool" where
  "same_registry v w \<longleftrightarrow> streams w = streams v \<and>
     (\<forall>r s. heap v r = Some s \<longrightarrow> closed s \<longrightarrow> (\<exists>s'. heap w r = Some s' \<and> closed s'))"

lemma same_registry_refl: "same_registry w w"
  by (simp add: same_registry_def)

lemma same_registry_ext: "same_registry v (w\<lparr>ext_st := x\<rparr>) = same_registry v w" "same_registry (v\<lparr>ext_st := x\<rparr>) w = same_registry v w"
  by (simp_all add: same_registry_def)

lemma same_registry_put: "heap w r = Some s \<Longrightarrow> closed s' = closed s \<Longrightarrow> same_registry w (put_stream r s' w)"
  by (simp add: same_registry_def put_stream_def)

lemma stays_via: "stays w v \<Longrightarrow> same_registry v w' \<Longrightarrow> advances w w' \<Longrightarrow> stays w w'"
  unfolding stays_def same_registry_def quic_client_lookup_stream_def by metis

lemma stays_call:
  "client_wf w \<Longrightarrow> events_ok K (w\<lparr>ext_st := x\<rparr>) es \<Longrightarrow> stays w (run_events K es (w\<lparr>ext_st := x\<rparr>))"
  using stays_events [of "w\<lparr>ext_st := x\<rparr>" K es] by (simp add: stays_ext)

lemma on_stream_registry: "streams (snd (on_stream r f w)) = streams w"
  by (simp add: on_stream_def put_stream_def split: option.splits sum.splits)

lemma account_registry: "same_registry w (account_selected K sel n pd w)"
  by (auto simp: account_selected_def same_registry_refl split: option.splits intro: same_registry_put)

lemma write_pkt_registry:
  assumes "writev_call X w = (ret, x')"
  shows "same_registry (run_events (consts_of X) (wv_events ret) (w\<lparr>ext_st := x'\<rparr>)) (snd (snd (quic_client_write_pkt X args w))) \<or>
    snd (snd (quic_client_write_pkt X args w)) = w"
  using assms account_registry by (auto simp: quic_client_write_pkt_def Let_def same_registry_refl split: sum.splits)

lemma reset_registry:
  "same_registry v (case heap v r of None \<Rightarrow> v | Some s1 \<Rightarrow> put_stream r (s1\<lparr>reset := True\<rparr>) v)"
  by (auto simp: same_registry_refl split: option.splits intro: same_registry_put)

section \<open>The methods\<close>

text \<open>ngtcp2 opens a stream under an id that is not in use.\<close>

definition opens_fresh :: "'x ext \<Rightarrow> 'x client \<Rightarrow> bool" where
  "opens_fresh X w \<longleftrightarrow>
     (\<forall>sid x'. x_open_bidi_stream X (ext_st w) = ((0, sid), x') \<longrightarrow> quic_client_lookup_stream w sid = None) \<and>
     (\<forall>sid x'. x_open_uni_stream X (ext_st w) = ((0, sid), x') \<longrightarrow> quic_client_lookup_stream w sid = None)"

lemma stays_open:
  assumes wf: "client_wf w" and fresh: "\<And>sid x'. call (ext_st w) = ((0, sid), x') \<Longrightarrow> quic_client_lookup_stream w sid = None"
  shows "stays w (snd (open_stream X call w))"
proof -
  obtain rv sid x' where c: "call (ext_st w) = ((rv, sid), x')" by (metis prod.collapse)
  have a: "advances w (snd (open_stream X call w))" using wf by (rule advances_open_stream)
  show ?thesis
  proof (cases "rv = 0")
    case True
    with fresh c have n: "quic_client_lookup_stream w sid = None" by blast
    have "quic_client_lookup_stream (snd (open_stream X call w)) q = Some r" if "quic_client_lookup_stream w q = Some r" for q r
      using that n c True
      by (auto simp: open_stream_def register_stream_def Let_def quic_client_lookup_stream_def hash.aref_aset)
    with a show ?thesis by (simp add: stays_def)
  qed (use a c in \<open>auto intro: stays_same simp: open_stream_def\<close>)
qed

lemma stays_read_pkt:
  assumes wf: "client_wf w"
    and ok: "\<And>packet pth ts x1 rv evs x2. read_pkt_args args = Inr (packet, pth) \<Longrightarrow>
      quic_now X (ext_st w) = (ts, x1) \<Longrightarrow> x_read_pkt X pth packet ts x1 = ((rv, evs), x2) \<Longrightarrow>
      events_ok (consts_of X) (w\<lparr>ext_st := x2\<rparr>) evs"
  shows "stays w (snd (snd (quic_client_read_pkt X args (lk, w))))"
  using stays_call [OF wf ok] wf
  by (auto simp: quic_client_read_pkt_def rb_ensure_def quic_read_pkt_body_def quic_read_pkt_unlock_def stays_refl
      split: sum.splits prod.splits)

lemma stays_close_read:
  assumes wf: "client_wf w"
    and ok: "\<And>s rv evs x2. heap w r = Some s \<Longrightarrow>
      x_shutdown_stream_read X (stream_id s) 0 (ext_st w) = ((rv, evs), x2) \<Longrightarrow>
      events_ok (consts_of X) (w\<lparr>ext_st := x2\<rparr>) evs"
  shows "stays w (snd (quic_stream_close_read_m X r w))"
  using stays_call [OF wf ok] wf
  by (auto simp: quic_stream_close_read_m_def stays_refl split: option.splits prod.splits)

lemma stays_reset:
  assumes wf: "client_wf w"
    and ok: "\<And>s code rv evs x2. heap w r = Some s \<Longrightarrow>
      x_shutdown_stream_write X (stream_id s) code (ext_st w) = ((rv, evs), x2) \<Longrightarrow>
      events_ok (consts_of X) (w\<lparr>ext_st := x2\<rparr>) evs"
  shows "stays w (snd (quic_stream_reset_m X r args w))"
proof -
  let ?w' = "snd (quic_stream_reset_m X r args w)"
  have a: "advances w ?w'" using wf ok by (rule advances_reset) blast+
  have "\<exists>v. stays w v \<and> same_registry v ?w'"
    using stays_call [OF wf ok] stays_refl [OF wf]
    by (fastforce simp: quic_stream_reset_m_def Let_def same_registry_refl intro: reset_registry same_registry_put
        split: sum.splits option.splits prod.splits)
  with a show ?thesis by (blast intro: stays_via)
qed

lemma stays_close:
  assumes wf: "client_wf w"
    and ok: "\<And>code reason ts x1 n pkt evs x2. quic_now X (ext_st w) = (ts, x1) \<Longrightarrow>
      x_write_connection_close X code reason (QUIC_WRITE_PKT_BUFLEN (consts_of X)) ts x1 = ((n, pkt, evs), x2) \<Longrightarrow>
      events_ok (consts_of X) (w\<lparr>ext_st := x2\<rparr>) evs"
  shows "stays w (snd (quic_client_close_m X args w))"
  using stays_call [OF wf ok] wf
  by (auto simp: quic_client_close_m_def Let_def stays_refl stays_ext
      split: sum.splits prod.splits option.splits)

lemma client_step_stays:
  "client_step X w w' \<Longrightarrow> writev_contract X \<Longrightarrow> client_wf w \<Longrightarrow> opens_fresh X w \<Longrightarrow> stays w w'"
proof (frule (2) client_step_advances, induction rule: client_step.induct)
  case (st_write_pkt w ret x' args)
  from write_pkt_registry [OF st_write_pkt(1), of args] stays_call [OF st_write_pkt(4,2)] st_write_pkt(4,6) show ?case
    by (auto intro: stays_via stays_refl)
next
  case (st_read_pkt args w lk)
  then show ?case by (intro stays_read_pkt) blast+
next
  case (st_handle_expiry w ts x1 rv evs x2)
  then show ?case using stays_call [OF st_handle_expiry(5,3)] by (simp add: quic_client_handle_expiry_def)
next
  case (st_open_bidi w)
  then show ?case by (auto simp: quic_client_open_bidi_stream_def opens_fresh_def intro: stays_open)
next
  case (st_open_uni w)
  then show ?case by (auto simp: quic_client_open_uni_stream_def opens_fresh_def intro: stays_open)
next
  case (st_accept w)
  then show ?case by (intro stays_same) (auto simp: accept_stream_nonblock_def split: prod.splits option.splits)
next
  case (st_bind w so)
  then show ?case by (intro stays_same) (simp_all add: bind_sock_def)
next
  case (st_close_read w r)
  then show ?case by (intro stays_close_read) blast+
next
  case (st_reset w r args)
  then show ?case by (intro stays_reset) blast+
next
  case (st_close w args)
  then show ?case by (intro stays_close) blast+
qed (auto intro!: stays_same simp: stream_enqueue_def stream_write_nonblock_def stream_close_write_def
    stream_read_nonblock_def on_stream_registry)

text \<open>A step of a client whose transport does not reuse stream ids.\<close>

definition fresh_step :: "'x ext \<Rightarrow> 'x client \<Rightarrow> 'x client \<Rightarrow> bool" where
  "fresh_step X w w' \<longleftrightarrow> client_step X w w' \<and> opens_fresh X w"

definition stays_from :: "'x ext \<Rightarrow> 'x client \<Rightarrow> 'x client \<Rightarrow> bool" where
  "stays_from X w w' \<longleftrightarrow> (writev_contract X \<longrightarrow> client_wf w \<longrightarrow> stays w w')"

interpretation reg: step_preorder "fresh_step X" "stays_from X" for X
proof unfold_locales
  fix u v w :: "'a client"
  show "stays_from X u u" by (simp add: stays_from_def stays_refl)
  show "stays_from X u w" if "stays_from X u v" "stays_from X v w"
    using that stays_trans [of u v w] unfolding stays_from_def by (metis stays_def advances_def)
  show "stays_from X u v" if "fresh_step X u v"
    using that client_step_stays by (auto simp: stays_from_def fresh_step_def)
qed

section \<open>Property\<close>

text \<open>
  C6. A stream is reachable through its id until ngtcp2 closes it. Once an id is registered, in
  every later state the object still exists, still has that id, and is either still the one the
  registry (and so every callback) finds under the id, or closed.
\<close>

theorem registered_until_closed:
  assumes "client_init w0" "(client_step X)\<^sup>*\<^sup>* w0 w" "(fresh_step X)\<^sup>*\<^sup>* w w'" "writev_contract X"
    and l: "quic_client_lookup_stream w sid = Some r"
  shows "\<exists>s. heap w' r = Some s \<and> stream_id s = sid \<and> (quic_client_lookup_stream w' sid = Some r \<or> closed s)"
proof -
  have wf: "client_wf w" using cl.inv_reachable [OF assms(1,2)] assms(4) by simp
  then have st: "stays w w'" using reg.rel_run [OF assms(3)] assms(4) by (simp add: stays_from_def)
  obtain s where "heap w r = Some s" "stream_id s = sid" using lookup_live [OF wf l] by blast
  then obtain s' where "heap w' r = Some s'" "stream_id s' = sid"
    using st unfolding stays_def advances_def client_le_def stream_le_def by blast
  with st l show ?thesis unfolding stays_def by fastforce
qed

theorem registered_until_closed_witness:
  "\<exists>s. heap (snd (accept_stream_nonblock sample_client2)) 0 = Some s \<and> stream_id s = 1 \<and>
     quic_client_lookup_stream (snd (accept_stream_nonblock sample_client2)) 1 = Some 0"
proof -
  let ?w = "snd (accept_stream_nonblock sample_client2)"
  have l: "quic_client_lookup_stream sample_client2 1 = Some 0"
    by (simp add: quic_client_lookup_stream_def sample_client2_def LL2NUM_def)
  have "opens_fresh sample_ext2 sample_client2"
    by (simp add: opens_fresh_def sample_ext2_def sample_ext_def quic_client_lookup_stream_def sample_client2_def LL2NUM_def)
  then have "fresh_step sample_ext2 sample_client2 ?w" by (simp add: fresh_step_def client_step.st_accept)
  then have "(fresh_step sample_ext2)\<^sup>*\<^sup>* sample_client2 ?w" ..
  from registered_until_closed [OF sample_client_init r_into_rtranclp [of "client_step sample_ext2", OF sample_step] this sample_ext2_writev l]
  obtain s where s: "heap ?w 0 = Some s" "stream_id s = 1" "quic_client_lookup_stream ?w 1 = Some 0 \<or> closed s" by blast
  have "\<not> closed s" using s(1) by (auto simp: accept_stream_nonblock_def sample_client2_def sample_stream_def)
  with s show ?thesis by blast
qed

end
