(* ===== verification/Client_New.thy ===== *)
theory Client_New
  imports Io_Loop Open_Properties
begin

unbundle bit_operations_syntax

text \<open>
  \<^verbatim>\<open>Quic::Connection::Client.new\<close> of \<^verbatim>\<open>lib/quic/connection.rb\<close>: the Ruby constructor on top of
  \<open>quic_client_open\<close>. It resolves the peer once and opens the connection to that address, and the
  defaults it fills in are ones the C code accepts.
\<close>

section \<open>The constructor\<close>

text \<open>The resolver neither creates nor destroys TLS or ngtcp2 objects.\<close>

definition resolver_neutral :: "'x ext \<Rightarrow> ('x \<Rightarrow> resource set) \<Rightarrow> bool" where
  "resolver_neutral X live \<longleftrightarrow> (\<forall>fam host port x. live (snd (x_addrinfo X fam host port x)) = live x)"

definition new_args :: "bytes \<Rightarrow> bytes \<Rightarrow> rvalue \<Rightarrow> rvalue \<Rightarrow> rvalue \<Rightarrow> call_args" where
  "new_args lo re host tp se = \<lparr>positional = [], kwargs = Some [
     (''local_sockaddr'', VStr ASCII_8BIT lo), (''remote_sockaddr'', VStr ASCII_8BIT re), (''server_name'', host),
     (''transport_params'', if RTEST tp then tp else transport_params_default),
     (''settings'', if RTEST se then se else settings_default)]\<rparr>"

lemma client_new_cases:
  assumes "client_new X self host port fam tp se st = (res, st')"
  obtains (family) e where "address_family (consts_of X) fam = Inl e" "res = Inl e" "st' = st"
  | (peer) family e x where "address_family (consts_of X) fam = Inr family"
      "x_addrinfo X family host port (o_ext st) = (Inl e, x)" "res = Inl e" "st' = st\<lparr>o_ext := x\<rparr>"
  | (own) family re x1 e x where "address_family (consts_of X) fam = Inr family"
      "x_addrinfo X family host port (o_ext st) = (Inr re, x1)" "x_addrinfo X None any_addr 0 x1 = (Inl e, x)"
      "res = Inl e" "st' = st\<lparr>o_ext := x\<rparr>"
  | (opened) family re x1 lo x r where "address_family (consts_of X) fam = Inr family"
      "x_addrinfo X family host port (o_ext st) = (Inr re, x1)" "x_addrinfo X None any_addr 0 x1 = (Inr lo, x)"
      "quic_client_open X self (new_args lo re host tp se) (st\<lparr>o_ext := x\<rparr>) = (r, st')"
      "res = map_sum id (\<lambda>w. (w, re)) r"
proof (cases "address_family (consts_of X) fam")
  case (Inl e)
  with assms that(1) show ?thesis by (simp add: client_new_def bindW_def liftE_def)
next
  case f: (Inr family)
  obtain r1 x1 where a: "x_addrinfo X family host port (o_ext st) = (r1, x1)" by fastforce
  show ?thesis
  proof (cases r1)
    case (Inl e)
    with assms f a that(2) show ?thesis by (simp add: client_new_def bindW_def liftE_def resolve_def)
  next
    case r1: (Inr re)
    obtain r2 x where b: "x_addrinfo X None any_addr 0 x1 = (r2, x)" by fastforce
    show ?thesis
    proof (cases r2)
      case (Inl e)
      with assms f a b r1 that(3) show ?thesis by (simp add: client_new_def bindW_def liftE_def resolve_def)
    next
      case r2: (Inr lo)
      obtain r st1 where o: "quic_client_open X self (new_args lo re host tp se) (st\<lparr>o_ext := x\<rparr>) = (r, st1)" by fastforce
      have "res = map_sum id (\<lambda>w. (w, re)) r \<and> st' = st1"
        using assms f a b r1 r2 o by (cases r) (simp_all add: client_new_def bindW_def liftE_def resolve_def new_args_def)
      with f a b r1 r2 o that(4) show ?thesis by blast
    qed
  qed
qed

text \<open>The three families there are.\<close>

lemma family_cases:
  "address_family K fam = (if fam = VNil then Inr None else if fam = VSym ''inet'' then Inr (Some (AF_INET K))
     else if fam = VSym ''inet6'' then Inr (Some (AF_INET6 K)) else rb_raise ArgumentError)"
  by (simp add: address_family_def NIL_P_def)

lemma family_Inr:
  "address_family K fam = Inr family \<Longrightarrow>
   (fam, family) \<in> {(VNil, None), (VSym ''inet'', Some (AF_INET K)), (VSym ''inet6'', Some (AF_INET6 K))}"
  by (auto simp: family_cases split: if_splits)

section \<open>Properties\<close>

text \<open>
  C31. \<open>Client.new\<close> on every path. It leaks nothing: whatever it does, handing the object it
  allocated (if any) to \<open>quic_client_free\<close> restores the library objects that were alive before. A
  \<open>address_family:\<close> other than nil, \<open>:inet\<close> and \<open>:inet6\<close> raises ArgumentError before anything is called; the
  three select no family, \<open>AF_INET\<close> and \<open>AF_INET6\<close>. When the call returns, the client is complete
  and in the initial state of its state machine, and the address it reports is the one the
  resolver gave for the host in that family, which the connection was opened to.
\<close>

theorem client_new_safe:
  assumes X: "resource_contract X live" "resolver_neutral X live" and st: "self_obj st = None"
    and out: "client_new X self host port fam tp se st = (res, st')"
  shows "live (case self_obj st' of None \<Rightarrow> o_ext st' | Some c \<Rightarrow> quic_client_free X c (o_ext st')) = live (o_ext st) \<and>
    (if fam \<notin> {VNil, VSym ''inet'', VSym ''inet6''} then res = rb_raise ArgumentError \<and> st' = st
     else case res of Inl e \<Rightarrow> True
       | Inr (w, remote) \<Rightarrow> client_init w \<and> ext_st w = o_ext st' \<and> (\<exists>c. self_obj st' = Some c \<and> complete self c) \<and>
           (\<exists>family lo x. (fam, family) \<in> {(VNil, None), (VSym ''inet'', Some (AF_INET (consts_of X))),
               (VSym ''inet6'', Some (AF_INET6 (consts_of X)))} \<and>
             fst (x_addrinfo X family host port (o_ext st)) = Inr remote \<and>
             quic_client_open X self (new_args lo remote host tp se) (st\<lparr>o_ext := x\<rparr>) = (Inr w, st')))"
  using out
proof (cases rule: client_new_cases)
  case (family e)
  then have "fam \<notin> {VNil, VSym ''inet'', VSym ''inet6''} \<and> e = Exn ArgumentError None"
    by (auto simp: family_cases split: if_splits)
  with family st show ?thesis by simp
next
  case (peer family e x)
  have "fam \<in> {VNil, VSym ''inet'', VSym ''inet6''}" using family_Inr [OF peer(1)] by auto
  moreover have "live x = live (o_ext st)" using X(2) peer(2) unfolding resolver_neutral_def by (metis snd_conv)
  ultimately show ?thesis using peer st by simp
next
  case (own family re x1 e x)
  have "fam \<in> {VNil, VSym ''inet'', VSym ''inet6''}" using family_Inr [OF own(1)] by auto
  moreover have "live x1 = live (o_ext st)" "live x = live x1"
    using X(2) own(2,3) unfolding resolver_neutral_def by (metis snd_conv)+
  ultimately show ?thesis using own st by simp
next
  case (opened family re x1 lo x r)
  have l: "live x1 = live (o_ext st)" "live x = live x1"
    using X(2) opened(2,3) unfolding resolver_neutral_def by (metis snd_conv)+
  have "opened_or_owned live self (live (o_ext (st\<lparr>o_ext := x\<rparr>))) r st'"
    by (rule open_run [OF X(1) _ opened(4)]) (simp add: st)
  then have o: "owned live (live (o_ext st)) st'"
      "\<And>w. r = Inr w \<Longrightarrow> client_init w \<and> ext_st w = o_ext st' \<and> (\<exists>c. self_obj st' = Some c \<and> complete self c)"
    using l by (auto simp: opened_or_owned_def)
  have rel: "live (case self_obj st' of None \<Rightarrow> o_ext st' | Some c \<Rightarrow> quic_client_free X c (o_ext st')) = live (o_ext st)"
    by (rule owned_released [OF X(1) o(1)])
  have fam: "fam \<in> {VNil, VSym ''inet'', VSym ''inet6''}" using family_Inr [OF opened(1)] by auto
  show ?thesis
  proof (cases r)
    case (Inl e)
    with rel opened fam show ?thesis by simp
  next
    case (Inr w)
    with opened have "quic_client_open X self (new_args lo re host tp se) (st\<lparr>o_ext := x\<rparr>) = (Inr w, st')" by simp
    moreover have "fst (x_addrinfo X family host port (o_ext st)) = Inr re" by (simp add: opened(2))
    ultimately have "\<exists>family lo x. (fam, family) \<in> {(VNil, None), (VSym ''inet'', Some (AF_INET (consts_of X))),
               (VSym ''inet6'', Some (AF_INET6 (consts_of X)))} \<and>
             fst (x_addrinfo X family host port (o_ext st)) = Inr re \<and>
             quic_client_open X self (new_args lo re host tp se) (st\<lparr>o_ext := x\<rparr>) = (Inr w, st')"
      using family_Inr [OF opened(1)] by blast
    with Inr rel opened(5) fam o(2) show ?thesis by simp
  qed
qed

theorem client_new_safe_witness:
  "client_new ledger_ext 5 (VStr UTF_8 [97]) 443 (VSym ''unix'') VNil VNil sample_open_st = (rb_raise ArgumentError, sample_open_st) \<and>
   (\<exists>w st'. client_new ledger_ext 5 (VStr UTF_8 [97]) 443 (VSym ''inet6'') VNil VNil sample_open_st = (Inr (w, []), st') \<and> client_init w)"
proof -
  have n: "resolver_neutral ledger_ext (\<lambda>x. x)" by (simp add: resolver_neutral_def ledger_ext_def sample_ext_def)
  have st: "self_obj sample_open_st = None" by (simp add: sample_open_st_def)
  obtain w st' where o: "client_new ledger_ext 5 (VStr UTF_8 [97]) 443 (VSym ''inet6'') VNil VNil sample_open_st = (Inr (w, []), st')"
    by (simp add: client_new_def liftE_def resolve_def address_family_def RTEST_def open_stage_defs settings_default_def
        transport_params_default_def sample_open_st_def ledger_ext_def sample_ext_def)
  obtain res u where u: "client_new ledger_ext 5 (VStr UTF_8 [97]) 443 (VSym ''unix'') VNil VNil sample_open_st = (res, u)"
    by fastforce
  from client_new_safe [OF ledger_ext_contract n st o] client_new_safe [OF ledger_ext_contract n st u] o u
  show ?thesis by auto
qed

text \<open>
  The defaults of \<^verbatim>\<open>Settings\<close> and \<^verbatim>\<open>TransportParams\<close> satisfy every check of the C code, whatever
  ngtcp2 is linked and whatever the clock says: with them, opening fails only where a library
  fails. The values that reach ngtcp2 are those of the two factory methods, times in nanoseconds.
\<close>

theorem defaults_accepted:
  "\<exists>tp se. quic_fill_transport_params X transport_params_default = Inr tp \<and>
     fst (quic_fill_settings X settings_default x) = Inr se \<and>
     transport_param_values tp = [262144, 262144, 262144, 1048576, 100, 100, 30 * 10 ^ 9, 7] \<and>
     cc_algo se = CC_ALGO_CUBIC (consts_of X) \<and> setting_values se = [333 * 10 ^ 6, 0, 0, 10 * 10 ^ 9] \<and> no_pmtud se = 0 \<and>
     open_alpn X s settings_default st = (Inr (), st)"
  by (cases "quic_now X x")
    (simp add: quic_fill_transport_params_def quic_fill_settings_def transport_params_default_def settings_default_def
      quic_get_uint64_field_def quic_cc_algo_from_sym_def open_alpn_def transport_param_values_def setting_values_def RTEST_def)

end
