(* ===== verification/Spec2Isabelle.thy ===== *)
theory Spec2Isabelle
  imports Io_Progress Io_Accept Equivalences Method_Tables Client_Registry Client_New
begin

text \<open>
  A verification of quic-ruby, the Ruby binding of ngtcp2: the C extension under \<^verbatim>\<open>src/ext/quic\<close>
  (\<^verbatim>\<open>connection_client.c\<close>, \<^verbatim>\<open>stream.c\<close>, \<^verbatim>\<open>stream.h\<close>, \<^verbatim>\<open>quic.c\<close>) and the Ruby layer on top of it
  (\<^verbatim>\<open>src/lib/quic\<close>).

  The program. A \<^verbatim>\<open>Quic::Connection::Client\<close> owns one \<^verbatim>\<open>ngtcp2_conn\<close> with its TLS objects, a
  registry \<^verbatim>\<open>@streams\<close> (stream id to \<^verbatim>\<open>Quic::Stream\<close>) and a queue \<^verbatim>\<open>@accept_queue\<close> of streams the
  server opened. A stream keeps the bytes its application wrote until the peer has acknowledged
  them (\<^verbatim>\<open>@pending_chunks\<close> with three 64-bit offsets), because ngtcp2 refers to them for
  retransmission, and the bytes received until they are read (\<^verbatim>\<open>@recv_buffer\<close>). \<open>write_pkt\<close> selects a
  stream, lets ngtcp2 frame some of its bytes and accounts for them; \<open>read_pkt\<close> and
  \<open>handle_expiry\<close> hand datagrams and timers to ngtcp2, which calls the five stream callbacks back.
  The Ruby I/O loop drives these three over a bound socket for the blocking calls.

  The theories, in the order of their imports.
  \<^item> \<open>Quic_Prelude\<close>: byte strings and machine words, sequencing of fallible code (\<open>bindE\<close>, \<open>bindW\<close>,
    \<open>triple\<close>), the locales \<open>transition_invariant\<close> and \<open>step_preorder\<close>.
  \<^item> \<open>Ruby_Runtime\<close>: what the C code uses of CRuby: values, exceptions, conversions,
    \<open>rb_scan_args\<close>, Hash and Array, with the locales \<open>ordered_hash\<close> and \<open>fifo_queue\<close>.
  \<^item> \<open>Ngtcp2_Interface\<close>: ngtcp2, LibreSSL, the resolver, the clock and the socket, none of which is
    code of this repository: the record \<open>'x ext\<close> of functions over an opaque state, a parameter of
    every definition that calls them. The callbacks a call makes are the events it returns.
  \<^item> \<open>Quic_Errors\<close>: \<^verbatim>\<open>quic.c\<close>: the mapping of ngtcp2 codes to exceptions and the class table.
  \<^item> \<open>Quic_Stream\<close>: \<^verbatim>\<open>stream.h\<close>, \<^verbatim>\<open>stream.c\<close>: the state of a stream, queueing, reading, \<open>eof?\<close>.
  \<^item> \<open>Stream_Send\<close>: the per-stream parts of \<open>quic_client_pick_send_stream\<close>,
    \<open>quic_client_write_pkt\<close> and \<open>quic_acked_stream_data_offset_cb\<close>; the locale \<open>send_buffer\<close> is the
    abstract specification of a retransmission buffer (the history of all bytes written, a sent
    and an acknowledged position), and these operations implement it.
  \<^item> \<open>Stream_Recv\<close>: the receiving counterpart, with the locale \<open>receive_buffer\<close>.
  \<^item> \<open>Client_State\<close>: the client record, an explicit store of stream objects, the five callbacks and
    the invariant \<open>client_wf\<close>.
  \<^item> \<open>Client_Ops\<close>: the methods of an open client and the stream methods that call ngtcp2.
  \<^item> \<open>Client_Invariants\<close>: \<open>client_step\<close>, one rule per method, and its invariant and monotonicity.
  \<^item> \<open>Client_Properties\<close>, \<open>Client_Behaviour\<close>, \<open>Client_Writing\<close>: the properties of these methods.
  \<^item> \<open>Client_Open\<close>, \<open>Open_Properties\<close>: \<open>quic_client_open\<close> stage by stage, ALPN encoding, settings and
    transport parameters, the collector's hooks; ownership of the library objects.
  \<^item> \<open>Io_Loop\<close>, \<open>Io_Properties\<close>, \<open>Io_Behaviour\<close>, \<open>Io_Safety\<close>: the blocking layer
    (\<^verbatim>\<open>lib/quic/connection.rb\<close>, \<^verbatim>\<open>lib/quic/stream.rb\<close> and the blocking \<open>write\<close> of \<^verbatim>\<open>stream.c\<close>), the
    locales \<open>waiting_loop\<close> and \<open>io_relation\<close>, and the properties of the blocking calls; each is a
    sequence of packet methods and system calls (\<open>io_step\<close>).
  \<^item> \<open>Client_Refinement\<close>: the abstract specification of a client, two byte queues per stream
    (\<open>pipe_step\<close>), the observations every method reports (\<open>client_trans\<close>, the labelled form of
    \<open>client_step\<close>), and the locale \<open>functional_refinement\<close> with its instance \<open>pipes\<close>.
  \<^item> \<open>Io_Progress\<close>: the work that is left and its decrease with every packet, flushing, release of
    acknowledged bytes. \<open>Io_Accept\<close>: what \<open>accept_stream\<close> hands out, and the initiator of a stream.
  \<^item> \<open>Client_Registry\<close>: a stream stays registered until it is closed. \<open>Client_New\<close>: the Ruby
    constructor \<^verbatim>\<open>Client.new\<close> and its defaults.
  \<^item> \<open>Equivalences\<close>: splits of acknowledgements and of deliveries, waiting and non-waiting writes.
  \<^item> \<open>Method_Tables\<close>: the tables of the two \<^verbatim>\<open>Init_*\<close> functions, the call of an entry, the
    signatures of \<^verbatim>\<open>sig/quic.rbs\<close>, the values the functions return, and what each method raises.

  What the lemmas show. Sending: the bytes framed are a prefix of the bytes written, in order and
  without loss or repetition; unacknowledged bytes are never dropped; FIN is committed after the
  last byte, except for one path that loses it. Receiving: what is read is what was delivered.
  The client: the registry, the queue and the counters are consistent in every reachable state,
  flags are never cleared, each server stream is accepted at most once and in order; every run
  of it is a run of the byte queues, so between the two ends of a stream nothing is lost,
  duplicated or reordered, and how ngtcp2 splits its callbacks does not matter. Methods: the
  result of each on every branch, errors included; each has the type of its signature and
  raises only listed exceptions, of which its own leave the client as it was (but for the
  StreamClosed of a blocking write that has pumped before it was refused); after FIN, reset or
  close no method queues a byte. Opening: nothing is leaked or freed twice on any error path, and
  every configured value reaches ngtcp2 under its name. Blocking: flushing ends, and while ngtcp2
  takes what it is offered the frames of the flush carry every unsent byte and every FIN; a call
  returns exactly when its condition is reached after finitely many pumps; accepted streams are
  live and opened by the server. A few theorems
  record where the code departs from its documentation: they are named for what happens
  (\<open>fin_only_marked_without_frame\<close>, \<open>reset_stream_starves_others\<close>,
  \<open>window_check_ignores_queued_bytes\<close>, \<open>peer_reset_disables_local_reset\<close>,
  \<open>alpn_block_unbounded\<close>, \<open>write_on_closed_stream_hangs\<close>, \<open>read_all_returns_only_empty\<close>,
  \<open>read_some_behaviour\<close>, \<open>stream_close_behaviour\<close>).

  Hypotheses on the libraries are named predicates: \<open>writev_contract\<close>, \<open>switch_labels_distinct\<close>,
  \<open>flags_nonzero\<close> (\<open>Ngtcp2_Interface\<close>), \<open>event_ok\<close> and \<open>events_ok\<close> (\<open>Client_State\<close>: which callbacks
  ngtcp2 may invoke), \<open>resource_contract\<close> (\<open>Open_Properties\<close>; nothing is promised about a destructor
  that gets a dead object), \<open>output_bounded\<close> (\<open>Io_Behaviour\<close>), \<open>callbacks_ok_from\<close> (\<open>Io_Safety\<close>: the
  callbacks are admissible in the states a blocking call passes through, not in every state),
  \<open>opens_fresh\<close> (\<open>Client_Registry\<close>), \<open>resolver_neutral\<close> (\<open>Client_New\<close>), \<open>windows_open_along\<close>
  (\<open>Io_Progress\<close>: ngtcp2 takes what it is offered and the socket takes the packets, in the states
  of one flush). Each is shown to be satisfiable by a concrete instance; for the callbacks it is an
  ngtcp2 that acknowledges data, opens a stream and delivers bytes (\<open>peer_ext\<close>).

  Bounds. Offsets and windows are 64-bit words that wrap as in C; the invariant keeps a stream
  below \<open>2^64\<close> bytes, and the methods that queue bytes are steps of the state machine under that
  bound. String lengths in the theorems on writing are below \<open>2^63\<close> (a C \<^verbatim>\<open>long\<close>). No fuel is used:
  the loops that may wait forever are partial functions into \<open>option\<close>, where \<open>None\<close> means that the
  call does not return, and returning is proved as such.

  Not modelled: exception messages, the allocation hooks of CRuby and out-of-memory aborts,
  frozen, shared and locked Strings as packet buffers (where \<open>rb_str_modify_expand\<close> and
  \<open>rb_str_set_len\<close> raise), the conversion of Floats and of objects with \<^verbatim>\<open>to_int\<close> by \<open>NUM2ULL\<close> and
  \<open>NUM2LONG\<close> (they raise TypeError in the model), the size hooks and the data type descriptors, the
  class objects and the allocation hooks the \<^verbatim>\<open>Init_*\<close> functions register (their method tables
  and exception classes are modelled), the rounding of Float seconds, threads
  (the extension holds the interpreter lock throughout), and everything behind the interface
  records. Build scripts, examples and tests have no run-time logic.
\<close>

section \<open>From opening to any later state\<close>

text \<open>
  C12. A client that \<open>Client._open\<close> returned satisfies the invariant in every state its methods
  can reach, and every blocking call made there keeps it, provided that ngtcp2 invokes admissible
  callbacks in the states such a call runs through.
\<close>

theorem opened_client_safe:
  assumes live: "resource_contract X live" and st: "self_obj st = None"
    and opened: "quic_client_open X self args st = (Inr w0, st')" and X: "writev_contract X"
    and reach: "(client_step X)\<^sup>*\<^sup>* w0 w" and ok: "callbacks_ok_from X w" and pump: "pump_once X t w = Some (r, w')"
  shows "client_wf w \<and> client_wf w'"
proof -
  have "client_init w0"
    using open_run [OF live st opened] by (simp add: opened_or_owned_def)
  then have wf: "client_wf w" using cl.inv_reachable [OF _ reach] X by simp
  with io_run_advances [OF ios.once_rel [OF pump] X ok wf] show ?thesis by (simp add: advances_def)
qed

lemma peer_contract: "resource_contract peer_ext fst"
proof -
  have "constructors_contract peer_ext fst"
    unfolding constructors_contract_def
    by (auto simp: peer_ext_def ledger_ext_def creates_def handle_set_def split: if_splits)
  moreover have "destructors_contract peer_ext fst"
    by (auto simp: destructors_contract_def peer_ext_def ledger_ext_def)
  moreover have "neutral_contract peer_ext fst"
    by (simp add: neutral_contract_def peer_ext_def sample_ext_def)
  ultimately show ?thesis by (simp add: resource_contract_def)
qed

text \<open>
  From opening to an acknowledgement: open, bind, open a stream, write five bytes, pump; the peer
  acknowledges them and opens a stream of its own.
\<close>

theorem opened_client_safe_witness:
  "\<exists>w0 st' L w'. quic_client_open peer_ext 5 (sample_open_args settings_default)
       \<lparr>o_ext = ({}, 0), quic_crypto_initialized = False, self_obj = None\<rparr> = (Inr w0, st') \<and>
     (client_step peer_ext)\<^sup>*\<^sup>* w0 (asking L) \<and> pump_once peer_ext None (asking L) = Some (Inr (), w') \<and> client_wf w' \<and>
     acked_offset (the (heap w' 0)) = 5"
proof -
  let ?st = "\<lparr>o_ext = ({} :: resource set, 0 :: nat), quic_crypto_initialized = False, self_obj = None\<rparr>"
  let ?L = "{SSL_CTX_obj 1, SSL_obj 2, Conn_obj 3}"
  let ?w0 = "\<lparr>ext_st = (?L, 0), heap = Map.empty, next_ref = 0, streams = [], accept_queue = [], sock = None,
     iv_pump_local_sockaddr = None, iv_pump_remote_sockaddr = None\<rparr>"
  obtain st' where o: "quic_client_open peer_ext 5 (sample_open_args settings_default) ?st = (Inr ?w0, st')"
    by (simp add: open_stage_defs sample_open_args_def settings_default_def transport_params_default_def
        peer_ext_def ledger_ext_def sample_ext_def insert_commute free_handle_def)
  let ?w1 = "bind_sock (Some 4) ?w0"
  let ?w2 = "snd (quic_client_open_bidi_stream peer_ext ?w1)"
  let ?w3 = "snd (stream_enqueue 0 (VStr ASCII_8BIT [1, 2, 3, 4, 5]) False ?w2)"
  have w2: "?w2 = (asking ?L)\<lparr>heap := [0 \<mapsto> quic_stream_new 0 True]\<rparr>"
    by (simp add: quic_client_open_bidi_stream_def open_stream_def register_stream_def bind_sock_def LL2NUM_def
        peer_ext_def sample_ext_def asking_def)
  have w3: "?w3 = asking ?L"
    unfolding w2 by (simp add: stream_enqueue_def on_stream_def enqueue_VStr put_stream_def asking_def)
      (cases "quic_stream_new 0 True", simp)
  have "client_step peer_ext ?w0 ?w1" by (rule client_step.st_bind)
  moreover have "client_step peer_ext ?w1 ?w2" by (rule client_step.st_open_bidi)
  moreover have "client_step peer_ext ?w2 ?w3"
    by (rule client_step.st_enqueue) (unfold w2, simp add: write_room_def asking_def)
  ultimately have reach: "(client_step peer_ext)\<^sup>*\<^sup>* ?w0 (asking ?L)"
    unfolding w3 by (meson rtranclp.rtrancl_into_rtrancl rtranclp.rtrancl_refl)
  have "in_talk ?L (asking ?L)" using in_talkI(1) [of ?L None None] by (simp add: memo_def asking_def)
  then have ok: "callbacks_ok_from peer_ext (asking ?L)" by (rule in_talk_from)
  have "self_obj ?st = None" by simp
  from opened_client_safe [OF peer_contract this o peer_writev reach ok peer_pump] o reach peer_pump [of ?L]
  show ?thesis by (fastforce simp: talk_defs)
qed

end
